theory Spec2Isabelle
  imports Main
begin

section \<open>Python strings as lists of code points\<close>

text \<open>
  A Python \<open>str\<close> is a sequence of Unicode code points; it is modelled as a list of
  natural numbers. ASCII literals of the source are written with \<open>ascii\<close>.
\<close>

type_synonym ustr = "nat list"

definition ascii :: "string \<Rightarrow> ustr" where
  "ascii s = map of_char s"

text \<open>
  \<open>str.isspace\<close> on one character. The same set of code points is what \<open>\s\<close> matches
  in a \<open>str\<close> pattern of \<open>re\<close>, and what \<open>str.split()\<close> and \<open>str.strip()\<close> treat as
  whitespace.
\<close>

definition isspace :: "nat \<Rightarrow> bool" where
  "isspace c = ((0x9 \<le> c \<and> c \<le> 0xD) \<or> (0x1C \<le> c \<and> c \<le> 0x20) \<or> c = 0x85 \<or> c = 0xA0
     \<or> c = 0x1680 \<or> (0x2000 \<le> c \<and> c \<le> 0x200A) \<or> c = 0x2028 \<or> c = 0x2029
     \<or> c = 0x202F \<or> c = 0x205F \<or> c = 0x3000)"

text \<open>\<open>s.strip()\<close>: leading and trailing whitespace removed.\<close>

definition strip :: "ustr \<Rightarrow> ustr" where
  "strip s = rev (dropWhile isspace (rev (dropWhile isspace s)))"

text \<open>
  The maximal runs of characters satisfying \<open>P\<close>, left to right; \<open>cur\<close> is the run being
  read. \<open>s.split()\<close> is the list of maximal runs of non-whitespace characters.
\<close>

fun runs_of :: "(nat \<Rightarrow> bool) \<Rightarrow> ustr \<Rightarrow> ustr \<Rightarrow> ustr list" where
  "runs_of P cur [] = (if cur = [] then [] else [cur])"
| "runs_of P cur (c # cs) =
     (if P c then runs_of P (cur @ [c]) cs
      else (if cur = [] then [] else [cur]) @ runs_of P [] cs)"

definition split_ws :: "ustr \<Rightarrow> ustr list" where
  "split_ws s = runs_of (\<lambda>c. \<not> isspace c) [] s"

text \<open>\<open>sep.join(xs)\<close>.\<close>

fun join :: "ustr \<Rightarrow> ustr list \<Rightarrow> ustr" where
  "join sep [] = []"
| "join sep [x] = x"
| "join sep (x # y # ys) = x @ sep @ join sep (y # ys)"

text \<open>
  \<open>re.sub(r'\s+', ' ', s)\<close>: every maximal run of whitespace becomes one space. The flag
  says that the previous character was whitespace.
\<close>

fun sub_ws :: "bool \<Rightarrow> ustr \<Rightarrow> ustr" where
  "sub_ws inrun [] = []"
| "sub_ws inrun (c # cs) =
     (if isspace c then (if inrun then sub_ws True cs else 0x20 # sub_ws True cs)
      else c # sub_ws False cs)"

text \<open>
  \<open>s.split(sep)\<close> for a one-character separator, and \<open>re.split\<close> on a character class:
  the text is cut at every character satisfying \<open>P\<close>; empty pieces are kept.
\<close>

fun split_on :: "(nat \<Rightarrow> bool) \<Rightarrow> ustr \<Rightarrow> ustr list" where
  "split_on P [] = [[]]"
| "split_on P (c # cs) =
     (if P c then [] # split_on P cs
      else (case split_on P cs of [] \<Rightarrow> [[c]] | f # fs \<Rightarrow> (c # f) # fs))"

text \<open>
  \<open>s.replace(old, new)\<close>: every non-overlapping occurrence of \<open>old\<close>, left to right.
  (For an empty \<open>old\<close> Python inserts \<open>new\<close> around every character; the source never
  does that, and the model returns the text unchanged there.)
\<close>

function str_replace :: "ustr \<Rightarrow> ustr \<Rightarrow> ustr \<Rightarrow> ustr" where
  "str_replace old new [] = []"
| "str_replace old new (c # cs) =
     (if old \<noteq> [] \<and> take (length old) (c # cs) = old
      then new @ str_replace old new (drop (length old) (c # cs))
      else c # str_replace old new cs)"
  by pat_completeness auto
termination
  by (relation "measure (\<lambda>(old, new, s). length s)") auto

text \<open>
  \<open>s.find(sub)\<close>: the index of the first occurrence of \<open>sub\<close> in \<open>s\<close>, or \<open>-1\<close>.
\<close>

fun find_from :: "nat \<Rightarrow> ustr \<Rightarrow> ustr \<Rightarrow> int" where
  "find_from i sub [] = (if sub = [] then int i else -1)"
| "find_from i sub (c # cs) =
     (if take (length sub) (c # cs) = sub then int i else find_from (Suc i) sub cs)"

definition str_find :: "ustr \<Rightarrow> ustr \<Rightarrow> int" where
  "str_find s sub = find_from 0 sub s"

section \<open>Text normalizer\<close>

text \<open>
  \<open>unicodedata.normalize("NFKC", text)\<close> belongs to the Python standard library and is
  driven by the Unicode character database; it is a parameter \<open>nfkc\<close> of the model.
\<close>

definition normalize_urdu :: "(ustr \<Rightarrow> ustr) \<Rightarrow> ustr \<Rightarrow> ustr" where
  "normalize_urdu nfkc text =
     (let text1 = nfkc text;
          text2 = str_replace [0x6CC] [0x64A] (str_replace [0x6A9] [0x643] text1)
      in sub_ws False (strip text2))"

section \<open>Sentence segmenter\<close>

abbreviation lang_ur :: ustr where "lang_ur \<equiv> ascii ''ur''"
abbreviation lang_en :: ustr where "lang_en \<equiv> ascii ''en''"

text \<open>The character classes \<open>[\<dots>]\<close> of \<open>sentence_patterns\<close>: Urdu full stop U+06D4,
  Arabic question mark U+061F and \<open>!\<close>; \<open>.\<close>, \<open>!\<close> and \<open>?\<close>.\<close>

definition ur_ending :: "nat \<Rightarrow> bool" where
  "ur_ending c = (c = 0x6D4 \<or> c = 0x61F \<or> c = 0x21)"

definition en_ending :: "nat \<Rightarrow> bool" where
  "en_ending c = (c = 0x2E \<or> c = 0x21 \<or> c = 0x3F)"

text \<open>\<open>self.sentence_patterns.get(language, self.sentence_patterns['en'])\<close>.\<close>

definition sentence_pattern :: "ustr \<Rightarrow> nat \<Rightarrow> bool" where
  "sentence_pattern language = (if language = lang_ur then ur_ending else en_ending)"

text \<open>The first loop: fragments are stripped; empty ones and those of fewer than three
  words are dropped.\<close>

definition keep_sentences :: "ustr list \<Rightarrow> ustr list" where
  "keep_sentences sentences =
     filter (\<lambda>s. s \<noteq> [] \<and> 3 \<le> length (split_ws s)) (map strip sentences)"

text \<open>The second loop, over \<open>processed_sentences[:-1]\<close>: the character after the first
  occurrence of the sentence in the text is appended when it is an ending of the language,
  the default ending otherwise. \<open>text[next_pos]\<close> with a negative \<open>next_pos\<close> would count
  from the end, as Python does.\<close>

definition py_index :: "ustr \<Rightarrow> int \<Rightarrow> nat" where
  "py_index s i = (if i < 0 then s ! nat (int (length s) + i) else s ! nat i)"

definition add_ending :: "ustr \<Rightarrow> ustr \<Rightarrow> ustr \<Rightarrow> ustr" where
  "add_ending text language sentence =
     (let ending_char = (if language = lang_ur then 0x6D4 else 0x2E);
          next_pos = str_find text sentence + int (length sentence)
      in if next_pos < int (length text)
            \<and> (if language = lang_ur then ur_ending (py_index text next_pos)
                else en_ending (py_index text next_pos))
         then sentence @ [py_index text next_pos]
         else sentence @ [ending_char])"

definition regex_sentence_split :: "ustr \<Rightarrow> ustr \<Rightarrow> ustr list" where
  "regex_sentence_split text language =
     (let sentences = split_on (sentence_pattern language) text;
          processed_sentences = keep_sentences sentences;
          final_sentences = map (add_ending text language) (butlast processed_sentences)
      in if processed_sentences \<noteq> [] then final_sentences @ [last processed_sentences]
         else final_sentences)"

section \<open>Key phrase extractor\<close>

definition arabic_block :: "nat \<Rightarrow> bool" where
  "arabic_block c = (0x600 \<le> c \<and> c \<le> 0x6FF)"

definition ascii_letter :: "nat \<Rightarrow> bool" where
  "ascii_letter c = ((0x41 \<le> c \<and> c \<le> 0x5A) \<or> (0x61 \<le> c \<and> c \<le> 0x7A))"

definition ascii_digit :: "nat \<Rightarrow> bool" where
  "ascii_digit c = (0x30 \<le> c \<and> c \<le> 0x39)"

text \<open>
  \<open>\w\<close> in a \<open>str\<close> pattern: the underscore and every character that \<open>str.isalnum\<close>
  accepts. Outside ASCII that is a table of the Unicode character database, the parameter
  \<open>isalnum\<close>.
\<close>

definition re_word :: "(nat \<Rightarrow> bool) \<Rightarrow> nat \<Rightarrow> bool" where
  "re_word isalnum c =
     (ascii_letter c \<or> ascii_digit c \<or> c = 0x5F \<or> (0x80 \<le> c \<and> isalnum c))"

text \<open>
  \<open>re.findall\<close> with the pattern of two or more characters of the block U+0600 to
  U+06FF: the greedy quantifier takes a whole maximal run of characters of the block, and a run of one character gives no match.
\<close>

definition findall_ur :: "ustr \<Rightarrow> ustr list" where
  "findall_ur text = filter (\<lambda>r. 2 \<le> length r) (runs_of arabic_block [] text)"

text \<open>
  \<open>re.findall(r'\b[a-zA-Z]{2,}\b', text)\<close>: a match starts and ends at a word boundary
  and consists of ASCII letters, which are word characters; so a match is a whole maximal
  run of word characters, and the runs that hold a digit, an underscore or a letter
  outside ASCII give no match.
\<close>

definition findall_en :: "(nat \<Rightarrow> bool) \<Rightarrow> ustr \<Rightarrow> ustr list" where
  "findall_en isalnum text =
     filter (\<lambda>r. 2 \<le> length r \<and> list_all ascii_letter r) (runs_of (re_word isalnum) [] text)"

text \<open>The two stop-word sets of \<open>__init__\<close>.\<close>

definition ur_stop_words :: "ustr list" where
  "ur_stop_words =
     [
      [0x627, 0x648, 0x631], [0x6A9, 0x627], [0x6A9, 0x6D2],
      [0x6A9, 0x6CC], [0x645, 0x6CC, 0x6BA], [0x633, 0x6D2],
      [0x6A9, 0x648], [0x646, 0x6D2], [0x6C1, 0x6D2],
      [0x6C1, 0x6CC, 0x6BA], [0x62A, 0x6BE, 0x627], [0x62A, 0x6BE, 0x6D2],
      [0x6CC, 0x6C1], [0x648, 0x6C1], [0x62C, 0x648],
      [0x6A9, 0x6C1], [0x644, 0x6CC, 0x6D2], [0x633, 0x627, 0x62A, 0x6BE],
      [0x628, 0x6BE, 0x6CC], [0x62A, 0x648], [0x67E, 0x631],
      [0x627, 0x633], [0x627, 0x646], [0x627, 0x6CC, 0x6A9]
     ]"

definition en_stop_words :: "ustr list" where
  "en_stop_words =
     [
      ascii ''the'', ascii ''and'', ascii ''or'', ascii ''but'', ascii ''in'', ascii ''on'',
      ascii ''at'', ascii ''to'', ascii ''for'', ascii ''of'', ascii ''with'', ascii ''by'',
      ascii ''a'', ascii ''an'', ascii ''is'', ascii ''are'', ascii ''was'', ascii ''were'',
      ascii ''be'', ascii ''been'', ascii ''have'', ascii ''has'', ascii ''had'', ascii ''do'',
      ascii ''does'', ascii ''did'', ascii ''will'', ascii ''would'', ascii ''could'', ascii ''should'',
      ascii ''may'', ascii ''might'', ascii ''this'', ascii ''that'', ascii ''these'', ascii ''those'',
      ascii ''i'', ascii ''you'', ascii ''he'', ascii ''she'', ascii ''it'', ascii ''we'',
      ascii ''they''
     ]"

text \<open>\<open>self.stop_words.get(language)\<close>: \<open>None\<close> for any other language code.\<close>

definition stop_words :: "ustr \<Rightarrow> ustr list option" where
  "stop_words language =
     (if language = lang_ur then Some ur_stop_words
      else if language = lang_en then Some en_stop_words
      else None)"

text \<open>
  \<open>word_freq[word] = word_freq.get(word, 0) + 1\<close> on a dictionary that keeps its keys in
  insertion order: an association list, where a known key is updated in place and a new
  key goes to the end.
\<close>

fun bump :: "ustr \<Rightarrow> (ustr \<times> nat) list \<Rightarrow> (ustr \<times> nat) list" where
  "bump w [] = [(w, 1)]"
| "bump w ((k, n) # d) = (if k = w then (k, n + 1) # d else (k, n) # bump w d)"

fun count_words :: "ustr list \<Rightarrow> ustr list \<Rightarrow> (ustr \<times> nat) list \<Rightarrow> (ustr \<times> nat) list" where
  "count_words stop [] word_freq = word_freq"
| "count_words stop (word # words) word_freq =
     (if word \<notin> set stop \<and> 2 < length word
      then count_words stop words (bump word word_freq)
      else count_words stop words word_freq)"

text \<open>
  \<open>sorted(word_freq.items(), key=lambda x: x[1], reverse=True)[:10]\<close>: Python's sort is
  stable, also with \<open>reverse=True\<close>, so it is a stable sort on the negated count.
\<close>

definition top_words :: "(ustr \<times> nat) list \<Rightarrow> (ustr \<times> nat) list" where
  "top_words word_freq = take 10 (sort_key (\<lambda>x. - int (snd x)) word_freq)"

datatype error =
    FileNotFoundError ustr
  | TypeError ustr
  | ValueError ustr
  | ExternalError ustr

text \<open>\<open>str(e)\<close>.\<close>

fun str_of_error :: "error \<Rightarrow> ustr" where
  "str_of_error (FileNotFoundError m) = m"
| "str_of_error (TypeError m) = m"
| "str_of_error (ValueError m) = m"
| "str_of_error (ExternalError m) = m"

text \<open>
  The tokenizer of \<open>extract_key_phrases\<close>. \<open>str.lower\<close> is a table of the Unicode character
  database, the parameter \<open>lower\<close>.
\<close>

definition key_phrase_words :: "(ustr \<Rightarrow> ustr) \<Rightarrow> (nat \<Rightarrow> bool) \<Rightarrow> ustr \<Rightarrow> ustr \<Rightarrow> ustr list" where
  "key_phrase_words lower isalnum text language =
     (if language = lang_ur then findall_ur text else findall_en isalnum (lower text))"

text \<open>
  With a language code that has no stop-word set, \<open>word not in stop_words\<close> raises a
  \<open>TypeError\<close> at the first word.
\<close>

definition extract_key_phrases ::
  "(ustr \<Rightarrow> ustr) \<Rightarrow> (nat \<Rightarrow> bool) \<Rightarrow> ustr \<Rightarrow> ustr \<Rightarrow> error + ustr list" where
  "extract_key_phrases lower isalnum text language =
     (let words = key_phrase_words lower isalnum text language
      in case stop_words language of
           None \<Rightarrow>
             (if words = [] then Inr []
              else Inl (TypeError (ascii ''argument of type 'NoneType' is not iterable'')))
         | Some stop \<Rightarrow> Inr (map fst (top_words (count_words stop words []))))"

section \<open>Text chunker\<close>

text \<open>
  The loop \<open>for i in range(0, len(words), max_words)\<close> with its body; a chunk that is
  empty after stripping is not yielded.
\<close>

function chunk_loop :: "nat \<Rightarrow> nat \<Rightarrow> ustr list \<Rightarrow> ustr list" where
  "chunk_loop i max_words words =
     (if max_words = 0 \<or> length words \<le> i then []
      else (let chunk = join [0x20] (take max_words (drop i words))
            in (if strip chunk \<noteq> [] then [chunk] else [])
               @ chunk_loop (i + max_words) max_words words))"
  by pat_completeness auto
termination
  by (relation "measure (\<lambda>(i, max_words, words). length words - i)") auto

declare chunk_loop.simps [simp del]

text \<open>
  The generator, read to its end. \<open>range\<close> raises a \<open>ValueError\<close> for the step 0 and is
  empty for a negative step.
\<close>

definition chunk_text :: "ustr \<Rightarrow> ustr \<Rightarrow> int option \<Rightarrow> error + ustr list" where
  "chunk_text text language max_words =
     (let max_words1 = (case max_words of
                          None \<Rightarrow> (if language = lang_ur then 300 else 500)
                        | Some m \<Rightarrow> m);
          words = split_ws text
      in if max_words1 = 0 then Inl (ValueError (ascii ''range() arg 3 must not be zero''))
         else if max_words1 < 0 then Inr []
         else Inr (chunk_loop 0 (nat max_words1) words))"

section \<open>External capabilities and the processor\<close>

text \<open>
  A summarizer is the handle that \<open>transformers.pipeline\<close> returns: the model it was
  built from, and the value of the test
  \<open>hasattr(summarizer.model, 'config') and 'mt5' in str(summarizer.model.config).lower()\<close>.
\<close>

record summarizer =
  model_name :: ustr
  mt5_config :: bool

text \<open>The part of the result of \<open>model.transcribe\<close> that the pipeline reads: the text,
  and whether the key \<open>segments\<close> is present.\<close>

record whisper_result =
  result_text :: ustr
  has_segments :: bool

text \<open>
  Everything outside the program: the Unicode tables of the standard library, the file
  system, Whisper and the summarization models. A call either returns or raises; the
  same call has the same outcome throughout one run.
  \<^item> \<open>unicode_nfkc\<close>, \<open>unicode_lower\<close>, \<open>unicode_isalnum\<close>: \<open>unicodedata.normalize\<close>
    with the form NFKC, \<open>str.lower\<close> and \<open>str.isalnum\<close>;
  \<^item> \<open>os_path_exists\<close>: \<open>os.path.exists\<close>;
  \<^item> \<open>whisper_load_model\<close>: \<open>whisper.load_model(model_size)\<close>, returning a handle;
  \<^item> \<open>whisper_transcribe\<close>: \<open>model.transcribe(audio_file, language=language, ...)\<close>;
  \<^item> \<open>open_write\<close>: opening a file for writing and writing to it, \<open>None\<close> when
    nothing is raised;
  \<^item> \<open>hf_pipeline\<close>: \<open>pipeline("summarization", model=..., tokenizer=...)\<close>;
  \<^item> \<open>summarizer_call\<close>: \<open>summarizer(input, max_length=..., min_length=...,
    do_sample=False)[0]['summary_text']\<close>;
  \<^item> \<open>path_glob_mp3\<close>: \<open>Path(audio_dir).glob("*.mp3")\<close>.
\<close>

record world =
  unicode_nfkc :: "ustr \<Rightarrow> ustr"
  unicode_lower :: "ustr \<Rightarrow> ustr"
  unicode_isalnum :: "nat \<Rightarrow> bool"
  os_path_exists :: "ustr \<Rightarrow> bool"
  whisper_load_model :: "ustr \<Rightarrow> error + ustr"
  whisper_transcribe :: "ustr \<Rightarrow> ustr \<Rightarrow> ustr \<Rightarrow> error + whisper_result"
  open_write :: "ustr \<Rightarrow> error option"
  hf_pipeline :: "ustr \<Rightarrow> ustr option \<Rightarrow> error + summarizer"
  summarizer_call :: "summarizer \<Rightarrow> ustr \<Rightarrow> int \<Rightarrow> int \<Rightarrow> error + ustr"
  path_glob_mp3 :: "ustr \<Rightarrow> ustr list"

text \<open>The calls made to the external capabilities, in order.\<close>

datatype event =
    LoadWhisper ustr
  | Transcribe ustr ustr
  | WriteFile ustr
  | LoadPipeline ustr
  | Summarize ustr ustr

text \<open>The fields of an \<open>AudioProcessor\<close> that change, and the log of external calls.\<close>

record processor =
  model_size :: ustr
  whisper_model :: "ustr option"
  loaded_summarizer :: "summarizer option"
  events :: "event list"

definition log_event :: "event \<Rightarrow> processor \<Rightarrow> processor" where
  "log_event e st = st\<lparr>events := events st @ [e]\<rparr>"

definition load_whisper_model :: "world \<Rightarrow> processor \<Rightarrow> (error + ustr) \<times> processor" where
  "load_whisper_model w st =
     (case whisper_model st of
        Some model \<Rightarrow> (Inr model, st)
      | None \<Rightarrow>
          (let st1 = log_event (LoadWhisper (model_size st)) st
           in case whisper_load_model w (model_size st) of
                Inl e \<Rightarrow> (Inl e, st1)
              | Inr model \<Rightarrow> (Inr model, st1\<lparr>whisper_model := Some model\<rparr>)))"

section \<open>Summarization adapter\<close>

definition bart :: ustr where "bart = ascii ''facebook/bart-large-cnn''"
definition mt5 :: ustr where "mt5 = ascii ''google/mt5-small''"

text \<open>
  \<open>_load_summarizer\<close>. The \<open>device\<close> argument of \<open>pipeline\<close> does not choose the model and
  is left out.
\<close>

definition load_summarizer ::
  "world \<Rightarrow> processor \<Rightarrow> ustr \<Rightarrow> (error + summarizer) \<times> processor" where
  "load_summarizer w st language =
     (case loaded_summarizer st of
        Some s \<Rightarrow> (Inr s, st)
      | None \<Rightarrow>
          (let name = (if language = lang_en then bart else mt5);
               st1 = log_event (LoadPipeline name) st
           in case hf_pipeline w name (Some name) of
                Inr s \<Rightarrow> (Inr s, st1\<lparr>loaded_summarizer := Some s\<rparr>)
              | Inl e \<Rightarrow>
                  (let st2 = log_event (LoadPipeline bart) st1
                   in case hf_pipeline w bart None of
                        Inr s \<Rightarrow> (Inr s, st2\<lparr>loaded_summarizer := Some s\<rparr>)
                      | Inl e2 \<Rightarrow> (Inl e2, st2))))"

definition empty_input_message :: ustr where
  "empty_input_message = [0x26A0, 0xFE0F, 0x20] @ ascii ''Empty input. Skipped.''"

definition too_short_message :: ustr where
  "too_short_message =
     [0x2139, 0xFE0F, 0x20] @ ascii ''Text too short to summarize. Consider keeping as-is.''"

text \<open>The marker U+1F4DD and a space, put before the fallback summary of a chunk.\<close>

definition fallback_marker :: ustr where
  "fallback_marker = [0x1F4DD, 0x20]"

text \<open>
  The first two clauses: \<open>sentences = chunk.split('.')[:3]\<close> and
  \<open>'.'.join(sentences[:2]) + '.'\<close>, with U+06D4 for Urdu.
\<close>

definition first_clauses :: "ustr \<Rightarrow> ustr \<Rightarrow> ustr" where
  "first_clauses text language =
     (let stop = (if language = lang_ur then 0x6D4 else 0x2E);
          sentences = take 3 (split_on (\<lambda>c. c = stop) text)
      in join [stop] (take 2 sentences) @ [stop])"

text \<open>One turn of the loop over the chunks, with its own \<open>try\<close>.\<close>

definition summarize_chunk ::
  "world \<Rightarrow> summarizer \<Rightarrow> ustr \<Rightarrow> int \<Rightarrow> int \<Rightarrow> ustr \<Rightarrow> ustr" where
  "summarize_chunk w s language max_length min_length chunk =
     (let summary_input = (if mt5_config s then ascii ''summarize: '' @ chunk else chunk)
      in case summarizer_call w s summary_input max_length min_length of
           Inr summary \<Rightarrow> summary
         | Inl e \<Rightarrow> fallback_marker @ first_clauses chunk language)"

fun summarize_chunks ::
  "world \<Rightarrow> processor \<Rightarrow> summarizer \<Rightarrow> ustr \<Rightarrow> int \<Rightarrow> int \<Rightarrow> ustr list \<Rightarrow> ustr list \<times> processor" where
  "summarize_chunks w st s language max_length min_length [] = ([], st)"
| "summarize_chunks w st s language max_length min_length (chunk # chunks) =
     (let summary_input = (if mt5_config s then ascii ''summarize: '' @ chunk else chunk);
          st1 = log_event (Summarize (model_name s) summary_input) st;
          summary = summarize_chunk w s language max_length min_length chunk;
          (summaries, st2) = summarize_chunks w st1 s language max_length min_length chunks
      in (summary # summaries, st2))"

text \<open>
  \<open>summarize_text\<close>. The summarizer is loaded before the outer \<open>try\<close>, so a failure to load
  is raised to the caller. Inside the outer \<open>try\<close> and outside the inner one, only the
  chunk generator can raise; the outer handler returns the first clauses of the whole text.
\<close>

definition summarize_text ::
  "world \<Rightarrow> processor \<Rightarrow> ustr \<Rightarrow> ustr \<Rightarrow> int option \<Rightarrow> int option
     \<Rightarrow> (error + ustr) \<times> processor" where
  "summarize_text w st text language max_length min_length =
     (if strip text = [] then (Inr empty_input_message, st)
      else if length (split_ws text) < 20 then (Inr too_short_message, st)
      else
        (let max_length1 = (case max_length of
                              None \<Rightarrow> (if language = lang_ur then 8 else 150)
                            | Some m \<Rightarrow> m);
             min_length1 = (case min_length of
                              None \<Rightarrow> (if language = lang_ur then 3 else 50)
                            | Some m \<Rightarrow> m)
         in case load_summarizer w st language of
              (Inl e, st1) \<Rightarrow> (Inl e, st1)
            | (Inr s, st1) \<Rightarrow>
                (case chunk_text text language None of
                   Inl e \<Rightarrow> (Inr (first_clauses text language), st1)
                 | Inr chunks \<Rightarrow>
                     (let (summaries, st2) =
                            summarize_chunks w st1 s language max_length1 min_length1 chunks
                      in (Inr (join [0xA, 0xA] summaries), st2)))))"

section \<open>Transcription stage\<close>

text \<open>
  \<open>Path(p).stem\<close> on a POSIX path: the last component that is neither empty nor \<open>.\<close>,
  without its last suffix; a leading or a trailing dot does not start a suffix.
\<close>

definition path_name :: "ustr \<Rightarrow> ustr" where
  "path_name p =
     (let parts = filter (\<lambda>c. c \<noteq> [] \<and> c \<noteq> [0x2E]) (split_on (\<lambda>c. c = 0x2F) p)
      in if parts = [] then [] else last parts)"

definition path_stem :: "ustr \<Rightarrow> ustr" where
  "path_stem p =
     (let name = path_name p;
          suffix = rev (takeWhile (\<lambda>c. c \<noteq> 0x2E) (rev name))
      in if 0x2E \<in> set name \<and> suffix \<noteq> [] \<and> length suffix + 1 < length name
         then take (length name - length suffix - 1) name
         else name)"

text \<open>
  \<open>re.sub(r'\s+([P])', r'\1', text)\<close>: a maximal run of whitespace right before a
  character of the class is removed; \<open>pending\<close> is the run being read.
\<close>

fun unspace_before :: "(nat \<Rightarrow> bool) \<Rightarrow> ustr \<Rightarrow> ustr \<Rightarrow> ustr" where
  "unspace_before P pending [] = pending"
| "unspace_before P pending (c # cs) =
     (if isspace c then unspace_before P (pending @ [c]) cs
      else if P c then c # unspace_before P [] cs
      else pending @ c # unspace_before P [] cs)"

text \<open>
  \<open>re.sub(r'([P])\s*', r'\1 ', text)\<close>: a character of the class and the whitespace
  after it become the character and one space; \<open>skip\<close> says that such whitespace is
  being passed over.
\<close>

fun space_after :: "(nat \<Rightarrow> bool) \<Rightarrow> bool \<Rightarrow> ustr \<Rightarrow> ustr" where
  "space_after P skip [] = []"
| "space_after P skip (c # cs) =
     (if P c then c # 0x20 # space_after P True cs
      else if skip \<and> isspace c then space_after P True cs
      else c # space_after P False cs)"

text \<open>The characters that the last substitution of \<open>_clean_text\<close> keeps.\<close>

definition ur_kept :: "(nat \<Rightarrow> bool) \<Rightarrow> nat \<Rightarrow> bool" where
  "ur_kept isalnum c =
     ((0x600 \<le> c \<and> c \<le> 0x6FF) \<or> (0x750 \<le> c \<and> c \<le> 0x77F) \<or> (0x8A0 \<le> c \<and> c \<le> 0x8FF)
      \<or> (0xFB50 \<le> c \<and> c \<le> 0xFDFF) \<or> (0xFE70 \<le> c \<and> c \<le> 0xFEFF) \<or> isspace c
      \<or> c = 0x6D4 \<or> c = 0x61F \<or> c = 0x21 \<or> c = 0x60C \<or> c = 0x66B \<or> c = 0x66C
      \<or> re_word isalnum c)"

definition en_kept :: "(nat \<Rightarrow> bool) \<Rightarrow> nat \<Rightarrow> bool" where
  "en_kept isalnum c =
     (re_word isalnum c \<or> isspace c \<or> c = 0x2E \<or> c = 0x21 \<or> c = 0x3F \<or> c = 0x2C
      \<or> c = 0x3A \<or> c = 0x3B \<or> c = 0x27 \<or> c = 0x22 \<or> c = 0x28 \<or> c = 0x29 \<or> c = 0x2D)"

definition clean_text :: "(nat \<Rightarrow> bool) \<Rightarrow> ustr \<Rightarrow> ustr \<Rightarrow> ustr" where
  "clean_text isalnum text language =
     (let text1 = sub_ws False (strip text)
      in if language = lang_ur
         then strip (filter (ur_kept isalnum)
                (space_after ur_ending False (unspace_before ur_ending [] text1)))
         else strip (filter (en_kept isalnum)
                (space_after en_ending False (unspace_before en_ending [] text1))))"

text \<open>Writing a file: the call is logged, and what \<open>open\<close> or \<open>write\<close> raises is
  returned.\<close>

definition write_file :: "world \<Rightarrow> processor \<Rightarrow> ustr \<Rightarrow> error option \<times> processor" where
  "write_file w st path = (open_write w path, log_event (WriteFile path) st)"

text \<open>
  \<open>transcribe_audio\<close>. The handler of its \<open>try\<close> logs and raises again, so every error
  goes on to the caller. The timing and the contents of the files are not modelled.
\<close>

definition transcribe_audio ::
  "world \<Rightarrow> processor \<Rightarrow> ustr \<Rightarrow> ustr \<Rightarrow> ustr option \<Rightarrow> (error + ustr) \<times> processor" where
  "transcribe_audio w st audio_file language output_file =
     (if \<not> os_path_exists w audio_file
      then (Inl (FileNotFoundError (ascii ''Audio file not found: '' @ audio_file)), st)
      else case load_whisper_model w st of
             (Inl e, st1) \<Rightarrow> (Inl e, st1)
           | (Inr model, st1) \<Rightarrow>
               (let output_file1 = (case output_file of
                       None \<Rightarrow> ascii ''transcripts/'' @ path_stem audio_file
                                @ ascii ''_transcription.txt''
                     | Some f \<Rightarrow> f);
                    st2 = log_event (Transcribe audio_file language) st1
                in case whisper_transcribe w model audio_file language of
                     Inl e \<Rightarrow> (Inl e, st2)
                   | Inr result \<Rightarrow>
                       (let transcription0 = result_text result;
                            transcription1 = (if language = lang_ur
                               then normalize_urdu (unicode_nfkc w) transcription0
                               else transcription0);
                            transcription = clean_text (unicode_isalnum w) transcription1 language
                        in case write_file w st2 output_file1 of
                             (Some e, st3) \<Rightarrow> (Inl e, st3)
                           | (None, st3) \<Rightarrow>
                               (if has_segments result
                                then (let detailed_file = str_replace (ascii ''.txt'')
                                            (ascii ''_detailed.txt'') output_file1
                                      in case write_file w st3 detailed_file of
                                           (Some e, st4) \<Rightarrow> (Inl e, st4)
                                         | (None, st4) \<Rightarrow> (Inr transcription, st4))
                                else (Inr transcription, st3)))))"

section \<open>Pipeline orchestrator\<close>

definition process_sentences ::
  "world \<Rightarrow> processor \<Rightarrow> ustr \<Rightarrow> ustr \<Rightarrow> ustr option \<Rightarrow> (error + ustr list) \<times> processor" where
  "process_sentences w st text language output_file =
     (let output_file1 = (case output_file of
             None \<Rightarrow> ascii ''analysis/sentences_'' @ language @ ascii ''.txt''
           | Some f \<Rightarrow> f);
          processed_sentences = regex_sentence_split text language
      in case write_file w st output_file1 of
           (Some e, st1) \<Rightarrow> (Inl e, st1)
         | (None, st1) \<Rightarrow> (Inr processed_sentences, st1))"

text \<open>The values stored in the result dictionary.\<close>

datatype pyval = VStr ustr | VInt int | VList "ustr list"

type_synonym results = "string \<rightharpoonup> pyval"

text \<open>The handler of \<open>process_pipeline\<close>: the two keys are added to what the dictionary
  already holds.\<close>

definition pipeline_failed :: "results \<Rightarrow> error \<Rightarrow> results" where
  "pipeline_failed results e =
     results(''status'' \<mapsto> VStr (ascii ''error''),
             ''error'' \<mapsto> VStr (ascii ''Pipeline failed: '' @ str_of_error e))"

definition process_pipeline ::
  "world \<Rightarrow> processor \<Rightarrow> ustr \<Rightarrow> ustr \<Rightarrow> results \<times> processor" where
  "process_pipeline w st file_name language =
     (let audio_file = ascii ''audio/'' @ file_name @ ascii ''.mp3''
      in case transcribe_audio w st audio_file language None of
           (Inl e, st1) \<Rightarrow> (pipeline_failed Map.empty e, st1)
         | (Inr transcription, st1) \<Rightarrow>
      (let results1 = [''transcription'' \<mapsto> VStr transcription,
                       ''language'' \<mapsto> VStr language,
                       ''word_count'' \<mapsto> VInt (int (length (split_ws transcription)))]
       in case process_sentences w st1 transcription language None of
            (Inl e, st2) \<Rightarrow> (pipeline_failed results1 e, st2)
          | (Inr sentences, st2) \<Rightarrow>
      (let results2 = results1(''sentences'' \<mapsto> VList sentences,
                               ''sentence_count'' \<mapsto> VInt (int (length sentences)))
       in case extract_key_phrases (unicode_lower w) (unicode_isalnum w) transcription language of
            Inl e \<Rightarrow> (pipeline_failed results2 e, st2)
          | Inr key_phrases \<Rightarrow>
      (let results3 = results2(''key_phrases'' \<mapsto> VList key_phrases);
           combined_text = join [0x20] sentences
       in case summarize_text w st2 combined_text language None None of
            (Inl e, st3) \<Rightarrow> (pipeline_failed results3 e, st3)
          | (Inr summary, st3) \<Rightarrow>
      (let summary_file = ascii ''analysis/'' @ file_name @ ascii ''_'' @ language
                          @ ascii ''_summary.txt''
       in case write_file w st3 summary_file of
            (Some e, st4) \<Rightarrow> (pipeline_failed results3 e, st4)
          | (None, st4) \<Rightarrow>
              (results3(''summary'' \<mapsto> VStr summary,
                        ''summary_file'' \<mapsto> VStr summary_file,
                        ''status'' \<mapsto> VStr (ascii ''success'')), st4))))))"

text \<open>
  \<open>process_batch\<close>: one pipeline run per file found, in the order of the listing, on the
  same processor. \<open>process_pipeline\<close> catches every exception itself, so the handler of
  the loop body has nothing to catch.
\<close>

fun batch_loop ::
  "world \<Rightarrow> ustr \<Rightarrow> ustr list \<Rightarrow> (ustr \<rightharpoonup> results) \<times> processor
     \<Rightarrow> (ustr \<rightharpoonup> results) \<times> processor" where
  "batch_loop w language [] acc = acc"
| "batch_loop w language (audio_file # audio_files) (results, st) =
     (let file_name = path_stem audio_file;
          (r, st1) = process_pipeline w st file_name language
      in batch_loop w language audio_files (results(file_name \<mapsto> r), st1))"

definition process_batch ::
  "world \<Rightarrow> processor \<Rightarrow> ustr \<Rightarrow> ustr \<Rightarrow> (ustr \<rightharpoonup> results) \<times> processor" where
  "process_batch w st audio_dir language =
     batch_loop w language (path_glob_mp3 w audio_dir) (Map.empty, st)"

section \<open>Auxiliary definitions for the proofs and the examples\<close>

text \<open>What the two \<open>replace\<close> calls of \<open>normalize_urdu\<close> do to one character.\<close>

definition fold_char :: "nat \<Rightarrow> nat" where
  "fold_char c = (if c = 0x6CC then 0x64A else if c = 0x6A9 then 0x643 else c)"

text \<open>
  The one rule of NFKC that the examples on the normalizer exercise: the canonical
  composition of U+064A followed by U+0654 into U+0626 (the decomposition mapping of
  U+0626 in the Unicode character database). On the strings of the examples nothing else
  of NFKC applies, so there this function agrees with \<open>unicodedata.normalize\<close>.
\<close>

fun nfkc_yeh_hamza :: "ustr \<Rightarrow> ustr" where
  "nfkc_yeh_hamza (a # b # cs) =
     (if a = 0x64A \<and> b = 0x654 then 0x626 # nfkc_yeh_hamza cs
      else a # nfkc_yeh_hamza (b # cs))"
| "nfkc_yeh_hamza cs = cs"

text \<open>
  A list cut into consecutive groups of \<open>n\<close> elements, the last group holding the rest.
  The proofs on the chunker compare its loop with this.
\<close>

function slices :: "nat \<Rightarrow> 'a list \<Rightarrow> 'a list list" where
  "slices n xs = (if n = 0 \<or> xs = [] then [] else take n xs # slices n (drop n xs))"
  by pat_completeness auto
termination
  by (relation "measure (\<lambda>(n, xs). length xs)") auto

declare slices.simps [simp del]

text \<open>A token: not empty and free of whitespace.\<close>

definition token :: "ustr \<Rightarrow> bool" where
  "token t = (t \<noteq> [] \<and> list_all (\<lambda>c. \<not> isspace c) t)"

text \<open>
  The words that the counting loop of \<open>extract_key_phrases\<close> lets through, in the order of
  the scan, and the position at which a word is first met in a list.
\<close>

definition counted_words :: "ustr list \<Rightarrow> ustr list \<Rightarrow> ustr list" where
  "counted_words stop words = filter (\<lambda>word. word \<notin> set stop \<and> 2 < length word) words"

definition first_pos :: "'a list \<Rightarrow> 'a \<Rightarrow> nat" where
  "first_pos xs x = length (takeWhile (\<lambda>y. y \<noteq> x) xs)"

text \<open>
  What the counting loop has built after the words \<open>ks\<close>: one entry per word, with
  the number of its occurrences, the entries in the order in which the words were first met.
\<close>

definition counted :: "ustr list \<Rightarrow> (ustr \<times> nat) list \<Rightarrow> bool" where
  "counted ks d =
     (distinct (map fst d) \<and> set (map fst d) = set ks
      \<and> (\<forall>k. map_of d k = (if k \<in> set ks then Some (count_list ks k) else None))
      \<and> sorted_wrt (\<lambda>a b. first_pos ks a < first_pos ks b) (map fst d))"

text \<open>
  \<open>str.lower\<close> on ASCII text, for the examples; the examples hold no character outside
  ASCII, so the table \<open>isalnum\<close> is not consulted there.
\<close>

definition ascii_lower :: "ustr \<Rightarrow> ustr" where
  "ascii_lower s = map (\<lambda>c. if 0x41 \<le> c \<and> c \<le> 0x5A then c + 0x20 else c) s"

text \<open>A processor as \<open>__init__\<close> leaves it: no model loaded, no call made yet.\<close>

definition new_processor :: "ustr \<Rightarrow> processor" where
  "new_processor sz =
     \<lparr>model_size = sz, whisper_model = None, loaded_summarizer = None, events = []\<rparr>"

text \<open>An English transcript of 24 words in five sentences, for the examples.\<close>

definition demo_text :: ustr where
  "demo_text = ascii ''The cat sat down. The dog ran away. A bird flew over the old house. The sun was very warm. We went home late.''"

text \<open>
  A world for the examples. The directory \<open>audio\<close> holds \<open>a.mp3\<close> and \<open>c.mp3\<close>; the
  directory \<open>incoming\<close> lists \<open>a.mp3\<close>, \<open>b.mp3\<close> and \<open>c.mp3\<close>. Whisper loads and returns
  \<open>demo_text\<close> with segments, every file can be written, every summarization model
  loads, and a summarizer returns a fixed summary.
\<close>

definition demo_world :: world where
  "demo_world =
     \<lparr>unicode_nfkc = nfkc_yeh_hamza,
      unicode_lower = ascii_lower,
      unicode_isalnum = (\<lambda>c. False),
      os_path_exists = (\<lambda>p. p = ascii ''audio/a.mp3'' \<or> p = ascii ''audio/c.mp3''),
      whisper_load_model = (\<lambda>sz. Inr sz),
      whisper_transcribe =
        (\<lambda>model audio_file language. Inr \<lparr>result_text = demo_text, has_segments = True\<rparr>),
      open_write = (\<lambda>p. None),
      hf_pipeline = (\<lambda>name tokenizer. Inr \<lparr>model_name = name, mt5_config = (name = mt5)\<rparr>),
      summarizer_call = (\<lambda>s input max_length min_length. Inr (ascii ''A short summary.'')),
      path_glob_mp3 =
        (\<lambda>dir. if dir = ascii ''incoming''
              then [ascii ''incoming/a.mp3'', ascii ''incoming/b.mp3'', ascii ''incoming/c.mp3'']
              else [])\<rparr>"

text \<open>The same world without access to any summarization model: every call of
  \<open>pipeline\<close> raises.\<close>

definition offline_world :: world where
  "offline_world =
     demo_world\<lparr>hf_pipeline :=
       (\<lambda>name tokenizer. Inl (ExternalError (ascii ''model not available'')))\<rparr>"

text \<open>The same world where the models load and every call of a summarizer raises.\<close>

definition failing_calls_world :: world where
  "failing_calls_world =
     demo_world\<lparr>summarizer_call :=
       (\<lambda>s input max_length min_length. Inl (ExternalError (ascii ''out of memory'')))\<rparr>"

text \<open>
  What one item of a batch needs from the world to get through the pipeline, whatever
  the processor has cached: its audio file exists, Whisper loads and transcribes that
  file, the four files of the item can be written, and the preferred summarization model
  or BART loads.
\<close>

definition item_capabilities :: "world \<Rightarrow> ustr \<Rightarrow> ustr \<Rightarrow> bool" where
  "item_capabilities w file_name language =
     (os_path_exists w (ascii ''audio/'' @ file_name @ ascii ''.mp3'')
      \<and> (\<forall>sz. \<exists>model. whisper_load_model w sz = Inr model)
      \<and> (\<forall>model. \<exists>result.
            whisper_transcribe w model (ascii ''audio/'' @ file_name @ ascii ''.mp3'') language
              = Inr result)
      \<and> open_write w (ascii ''transcripts/''
                        @ path_stem (ascii ''audio/'' @ file_name @ ascii ''.mp3'')
                        @ ascii ''_transcription.txt'') = None
      \<and> open_write w (str_replace (ascii ''.txt'') (ascii ''_detailed.txt'')
                        (ascii ''transcripts/''
                         @ path_stem (ascii ''audio/'' @ file_name @ ascii ''.mp3'')
                         @ ascii ''_transcription.txt'')) = None
      \<and> open_write w (ascii ''analysis/sentences_'' @ language @ ascii ''.txt'') = None
      \<and> open_write w (ascii ''analysis/'' @ file_name @ ascii ''_'' @ language
                        @ ascii ''_summary.txt'') = None
      \<and> ((\<exists>s. hf_pipeline w (if language = lang_en then bart else mt5)
                  (Some (if language = lang_en then bart else mt5)) = Inr s)
         \<or> (\<exists>s. hf_pipeline w bart None = Inr s)))"

section \<open>Sentence segmenter: the example of the specification\<close>

lemmas segment_eval =
  regex_sentence_split_def ascii_def isspace_def strip_def split_ws_def keep_sentences_def
  add_ending_def sentence_pattern_def en_ending_def ur_ending_def py_index_def str_find_def
  Let_def

text \<open>
  Claim C1, as the specification states it: for the text \<open>Hello world. This is fine. Ok.\<close>
  and the language \<open>en\<close> the segmenter returns \<open>Hello world.\<close> and \<open>This is fine.\<close>.
  The code returns something else, so the statement is refuted at that input.
\<close>

theorem segment_hello_counterexample:
  "regex_sentence_split (ascii ''Hello world. This is fine. Ok.'') lang_en
     \<noteq> [ascii ''Hello world.'', ascii ''This is fine.'']"
  by (simp add: segment_eval)

text \<open>
  Claim C1, amended: for that text and the language \<open>en\<close> the segmenter returns exactly the
  one sentence \<open>This is fine\<close>. The fragments \<open>Hello world\<close> and \<open>Ok\<close> have two words and
  one word and are dropped by the filter of at least three words, and the last retained
  sentence gets no terminator.
\<close>

theorem segment_hello:
  "regex_sentence_split (ascii ''Hello world. This is fine. Ok.'') lang_en
     = [ascii ''This is fine'']"
  by (simp add: segment_eval)

section \<open>Text normalizer\<close>

lemma str_replace_single:
  "str_replace [a] [b] s = map (\<lambda>c. if c = a then b else c) s"
  by (induction s) auto

lemma set_sub_ws: "set (sub_ws b s) \<subseteq> insert 0x20 (set s)"
  by (induction s arbitrary: b) auto

lemma set_strip: "set (strip s) \<subseteq> set s"
proof -
  have "set (strip s) = set (dropWhile isspace (rev (dropWhile isspace s)))"
    by (simp add: strip_def)
  also have "\<dots> \<subseteq> set (rev (dropWhile isspace s))" by (rule set_dropWhileD[THEN subsetI]) 
  also have "\<dots> \<subseteq> set s" using set_dropWhileD by fastforce
  finally show ?thesis .
qed

lemma sub_ws_idem: "sub_ws b (sub_ws b s) = sub_ws b s"
  by (induction s arbitrary: b) (auto simp: isspace_def)

lemma sub_ws_map:
  assumes "\<And>c. isspace (g c) = isspace c" "g 0x20 = 0x20"
  shows "map g (sub_ws b s) = sub_ws b (map g s)"
  using assms by (induction s arbitrary: b) auto

lemma dropWhile_map_space:
  assumes "\<And>c. isspace (g c) = isspace c"
  shows "map g (dropWhile isspace s) = dropWhile isspace (map g s)"
  using assms by (induction s) auto

lemma strip_map:
  assumes "\<And>c. isspace (g c) = isspace c"
  shows "map g (strip s) = strip (map g s)"
proof -
  have d: "map g (dropWhile isspace xs) = dropWhile isspace (map g xs)" for xs
    using assms by (rule dropWhile_map_space)
  show ?thesis by (simp add: strip_def rev_map[symmetric] d)
qed

lemma strip_ends: "strip s = [] \<or> (\<not> isspace (hd (strip s)) \<and> \<not> isspace (last (strip s)))"
proof (cases "strip s = []")
  case True then show ?thesis by simp
next
  case False
  let ?d = "dropWhile isspace (rev (dropWhile isspace s))"
  have ne: "?d \<noteq> []" using False by (simp add: strip_def)
  have l: "\<not> isspace (hd ?d)" using ne by (rule hd_dropWhile)
  have "last (strip s) = hd ?d" using ne by (simp add: strip_def last_rev)
  moreover have "\<not> isspace (hd (strip s))"
  proof -
    let ?d1 = "dropWhile isspace s"
    have "rev (takeWhile isspace (rev ?d1) @ ?d) = ?d1"
      by (simp only: takeWhile_dropWhile_id rev_rev_ident)
    then have dec: "?d1 = strip s @ rev (takeWhile isspace (rev ?d1))"
      by (metis rev_append strip_def)
    then have "hd ?d1 = hd (strip s)" using False by (metis hd_append2)
    moreover have "?d1 \<noteq> []" using dec False by (metis append_is_Nil_conv)
    then have "\<not> isspace (hd ?d1)" by (rule hd_dropWhile)
    ultimately show ?thesis by simp
  qed
  ultimately show ?thesis using l by simp
qed

lemma strip_id: "s = [] \<or> (\<not> isspace (hd s) \<and> \<not> isspace (last s)) \<Longrightarrow> strip s = s"
proof (cases s)
  case Nil then show ?thesis by (simp add: strip_def)
next
  case (Cons a as)
  assume "s = [] \<or> (\<not> isspace (hd s) \<and> \<not> isspace (last s))"
  with Cons have h: "\<not> isspace a" and l: "\<not> isspace (last s)" by auto
  have 1: "dropWhile isspace s = s" using Cons h by simp
  obtain x xs where r: "rev s = x # xs" using Cons by (cases "rev s") auto
  have "hd (rev s) = last s" using Cons by (simp add: hd_rev)
  with r have "x = last s" by simp
  with l have "dropWhile isspace (x # xs) = x # xs" by simp
  then have 2: "dropWhile isspace (rev s) = rev s" unfolding r .
  show ?thesis by (simp add: strip_def 1 2)
qed

lemma sub_ws_False_ends:
  assumes "s \<noteq> []" "\<not> isspace (hd s)" "\<not> isspace (last s)"
  shows "sub_ws False s \<noteq> [] \<and> \<not> isspace (hd (sub_ws False s)) \<and> \<not> isspace (last (sub_ws False s))"
proof -
  have last: "s \<noteq> [] \<Longrightarrow> \<not> isspace (last s) \<Longrightarrow> sub_ws b s \<noteq> [] \<and> last (sub_ws b s) = last s" for b s
  proof (induction s arbitrary: b)
    case Nil then show ?case by simp
  next
    case (Cons c cs)
    show ?case
    proof (cases "cs = []")
      case True with Cons show ?thesis by simp
    next
      case False
      with Cons have "sub_ws b' cs \<noteq> [] \<and> last (sub_ws b' cs) = last cs" for b' by simp
      then show ?thesis using False by simp
    qed
  qed
  from assms show ?thesis using last[of s False] by (cases s) auto
qed

lemma collapse_idem: "sub_ws False (strip (sub_ws False (strip y))) = sub_ws False (strip y)"
proof (cases "strip y = []")
  case True
  have "strip [] = []" by (simp add: strip_def)
  with True show ?thesis by simp
next
  case False
  with strip_ends[of y] sub_ws_False_ends[of "strip y"]
  have "strip (sub_ws False (strip y)) = sub_ws False (strip y)"
    by (intro strip_id) auto
  then show ?thesis by (simp add: sub_ws_idem)
qed

lemma fold_repl: "str_replace [0x6CC] [0x64A] (str_replace [0x6A9] [0x643] s) = map fold_char s"
  by (simp add: str_replace_single fold_char_def)

lemma normalize_urdu_map: "normalize_urdu nfkc t = sub_ws False (strip (map fold_char (nfkc t)))"
  by (simp add: normalize_urdu_def fold_repl Let_def)

lemma fold_char_space: "isspace (fold_char c) = isspace c"
  by (simp add: fold_char_def isspace_def)

lemma fold_char_idem: "fold_char (fold_char c) = fold_char c"
  by (simp add: fold_char_def)


lemmas normalize_eval = normalize_urdu_def strip_def isspace_def Let_def

text \<open>
  Claim C6, as the specification states it: \<open>normalize_urdu\<close> is idempotent on every
  string. It is not: for U+06CC followed by the combining hamza U+0654, NFKC leaves the
  pair as it is, the folding turns it into U+064A U+0654, and a second pass composes
  that pair into U+0626.
\<close>

theorem normalize_urdu_idempotent_counterexample:
  "normalize_urdu nfkc_yeh_hamza (normalize_urdu nfkc_yeh_hamza [0x6CC, 0x654])
     \<noteq> normalize_urdu nfkc_yeh_hamza [0x6CC, 0x654]"
  by (simp add: normalize_eval)

text \<open>
  Claim C6, amended: normalizing a second time changes nothing whenever NFKC leaves the
  normalized text as it is; the folding of the two characters and the collapsing of
  whitespace are idempotent and do not disturb each other.
\<close>

theorem normalize_urdu_idempotent_when_stable:
  assumes "nfkc (normalize_urdu nfkc t) = normalize_urdu nfkc t"
  shows "normalize_urdu nfkc (normalize_urdu nfkc t) = normalize_urdu nfkc t"
proof -
  let ?x = "nfkc t"
  have sp20: "fold_char 0x20 = 0x20" by (simp add: fold_char_def)
  have "normalize_urdu nfkc (normalize_urdu nfkc t)
      = sub_ws False (strip (map fold_char (normalize_urdu nfkc t)))"
    using assms by (simp add: normalize_urdu_map)
  also have "\<dots> = sub_ws False (strip (map fold_char (sub_ws False (strip (map fold_char ?x)))))"
    by (simp add: normalize_urdu_map)
  also have "\<dots> = sub_ws False (strip (sub_ws False (strip (map fold_char (map fold_char ?x)))))"
    by (simp only: sub_ws_map[OF fold_char_space sp20] strip_map[OF fold_char_space])
  also have "\<dots> = sub_ws False (strip (map fold_char ?x))"
    by (simp add: collapse_idem fold_char_idem comp_def)
  finally show ?thesis by (simp add: normalize_urdu_map)
qed


theorem normalize_urdu_idempotent_witness:
  "nfkc_yeh_hamza (normalize_urdu nfkc_yeh_hamza [0x20, 0x6A9, 0x20, 0x20, 0x6CC, 0x9])
     = normalize_urdu nfkc_yeh_hamza [0x20, 0x6A9, 0x20, 0x20, 0x6CC, 0x9]
   \<and> normalize_urdu nfkc_yeh_hamza
        (normalize_urdu nfkc_yeh_hamza [0x20, 0x6A9, 0x20, 0x20, 0x6CC, 0x9])
     = [0x643, 0x20, 0x64A]"
proof -
  have h: "nfkc_yeh_hamza (normalize_urdu nfkc_yeh_hamza [0x20, 0x6A9, 0x20, 0x20, 0x6CC, 0x9])
     = normalize_urdu nfkc_yeh_hamza [0x20, 0x6A9, 0x20, 0x20, 0x6CC, 0x9]"
    by (simp add: normalize_eval)
  have v: "normalize_urdu nfkc_yeh_hamza [0x20, 0x6A9, 0x20, 0x20, 0x6CC, 0x9]
     = [0x643, 0x20, 0x64A]"
    by (simp add: normalize_eval)
  from normalize_urdu_idempotent_when_stable [OF h] h v show ?thesis by simp
qed

text \<open>
  Claim C10: whatever NFKC returns, the output of \<open>normalize_urdu\<close> holds neither
  U+06A9 (keheh) nor U+06CC (Farsi yeh): both are replaced after NFKC has run, and the
  whitespace step only adds spaces.
\<close>

theorem normalize_urdu_no_keheh_farsi_yeh:
  "0x6A9 \<notin> set (normalize_urdu nfkc t) \<and> 0x6CC \<notin> set (normalize_urdu nfkc t)"
proof -
  have sub: "set (normalize_urdu nfkc t) \<subseteq> insert 0x20 (set (map fold_char (nfkc t)))"
    unfolding normalize_urdu_map using set_sub_ws set_strip by blast
  have img: "fold_char c \<noteq> 0x6A9 \<and> fold_char c \<noteq> 0x6CC" for c
    by (simp add: fold_char_def)
  have "x \<in> set (normalize_urdu nfkc t) \<Longrightarrow> x \<noteq> 0x6A9 \<and> x \<noteq> 0x6CC" for x
  proof -
    assume "x \<in> set (normalize_urdu nfkc t)"
    with sub have "x = 0x20 \<or> x \<in> fold_char ` set (nfkc t)" by auto
    then show ?thesis using img by auto
  qed
  then show ?thesis by blast
qed

section \<open>Text chunker\<close>

lemma runs_of_tokens:
  "list_all P cur \<Longrightarrow> list_all (\<lambda>r. r \<noteq> [] \<and> list_all P r) (runs_of P cur s)"
  by (induction s arbitrary: cur) auto

lemma split_ws_tokens: "list_all token (split_ws s)"
  using runs_of_tokens[of "\<lambda>c. \<not> isspace c" "[]" s]
  by (simp add: split_ws_def token_def list_all_iff)

lemma runs_of_append_run:
  "list_all P t \<Longrightarrow> runs_of P cur (t @ rest) = runs_of P (cur @ t) rest"
  by (induction t arbitrary: cur) auto

lemma join_Cons: "join sep (x # xs) = (if xs = [] then x else x @ sep @ join sep xs)"
  by (cases xs) auto

lemma join_append:
  "xs \<noteq> [] \<Longrightarrow> ys \<noteq> [] \<Longrightarrow> join sep (xs @ ys) = join sep xs @ sep @ join sep ys"
  by (induction sep xs rule: join.induct) (auto simp: join_Cons)

lemma split_ws_join:
  "list_all token g \<Longrightarrow> split_ws (join [0x20] g) = g"
proof (induction "[0x20::nat]" g rule: join.induct)
  case 1 then show ?case by (simp add: split_ws_def)
next
  case (2 x)
  then have "list_all (\<lambda>c. \<not> isspace c) x" "x \<noteq> []" by (auto simp: token_def)
  then show ?case using runs_of_append_run[of "\<lambda>c. \<not> isspace c" x "[]" "[]"]
    by (simp add: split_ws_def)
next
  case (3 x y ys)
  then have x: "list_all (\<lambda>c. \<not> isspace c) x" "x \<noteq> []" by (auto simp: token_def)
  have sp: "isspace 0x20" by (simp add: isspace_def)
  from 3 have ih: "split_ws (join [0x20] (y # ys)) = y # ys" by simp
  have "split_ws (join [0x20] (x # y # ys))
      = runs_of (\<lambda>c. \<not> isspace c) x (0x20 # join [0x20] (y # ys))"
    using runs_of_append_run[OF x(1), of "[]"] by (simp add: split_ws_def)
  also have "\<dots> = x # split_ws (join [0x20] (y # ys))"
    using x(2) sp by (simp add: split_ws_def)
  finally show ?case using ih by simp
qed

lemma strip_Nil_iff: "strip s = [] \<longleftrightarrow> (\<forall>c\<in>set s. isspace c)"
proof
  assume "strip s = []"
  then have "dropWhile isspace (rev (dropWhile isspace s)) = []" by (simp add: strip_def)
  then have a: "\<forall>c\<in>set (dropWhile isspace s). isspace c"
    by (simp add: dropWhile_eq_Nil_conv)
  have "dropWhile isspace s = []"
  proof (rule ccontr)
    assume ne: "dropWhile isspace s \<noteq> []"
    then have "\<not> isspace (hd (dropWhile isspace s))" by (rule hd_dropWhile)
    moreover have "hd (dropWhile isspace s) \<in> set (dropWhile isspace s)" using ne by simp
    ultimately show False using a by blast
  qed
  then show "\<forall>c\<in>set s. isspace c" by (simp add: dropWhile_eq_Nil_conv)
next
  assume "\<forall>c\<in>set s. isspace c"
  then have "dropWhile isspace s = []" by (simp add: dropWhile_eq_Nil_conv)
  then have "strip s = rev (dropWhile isspace (rev []))" by (simp only: strip_def)
  then show "strip s = []" by simp
qed

lemma set_join: "x \<in> set g \<Longrightarrow> set x \<subseteq> set (join sep g)"
  by (induction sep g rule: join.induct) auto

lemma strip_join_tokens:
  assumes "list_all token g" "g \<noteq> []"
  shows "strip (join [0x20] g) \<noteq> []"
proof -
  from assms obtain x g' where g: "g = x # g'" by (cases g) auto
  with assms have x: "x \<in> set g" "token x" by simp_all
  from x(2) obtain c x' where "x = c # x'" by (cases x) (auto simp: token_def)
  with x(2) have c: "c \<in> set x" "\<not> isspace c" by (simp_all add: token_def)
  with set_join[OF x(1)] have "c \<in> set (join [0x20] g)" by blast
  with c(2) show ?thesis by (auto simp: strip_Nil_iff)
qed

lemma slices_Nil: "slices n [] = []"
  by (simp add: slices.simps)

lemma slices_step: "0 < n \<Longrightarrow> xs \<noteq> [] \<Longrightarrow> slices n xs = take n xs # slices n (drop n xs)"
  by (subst slices.simps) simp

lemma chunk_loop_slices:
  "list_all token ws \<Longrightarrow> 0 < m \<Longrightarrow>
   chunk_loop i m ws = map (join [0x20]) (slices m (drop i ws))"
proof (induction i m ws rule: chunk_loop.induct)
  case (1 i m ws)
  show ?case
  proof (cases "length ws \<le> i")
    case True
    then show ?thesis by (simp add: chunk_loop.simps slices_Nil)
  next
    case False
    let ?g = "take m (drop i ws)"
    have g: "list_all token ?g" "?g \<noteq> []"
      using 1(2,3) False by (auto simp: list_all_iff dest: in_set_takeD in_set_dropD)
    have ne: "strip (join [0x20] ?g) \<noteq> []" using g by (rule strip_join_tokens)
    have ih: "chunk_loop (i + m) m ws = map (join [0x20]) (slices m (drop (i + m) ws))"
      using 1 False ne by simp
    have "chunk_loop i m ws = join [0x20] ?g # chunk_loop (i + m) m ws"
      using False 1(3) ne by (subst chunk_loop.simps) (simp add: Let_def)
    moreover have "slices m (drop i ws) = ?g # slices m (drop (i + m) ws)"
      using False 1(3) by (simp add: slices_step add.commute)
    ultimately show ?thesis using ih by simp
  qed
qed

lemma concat_slices: "0 < n \<Longrightarrow> concat (slices n xs) = xs"
proof (induction n xs rule: slices.induct)
  case (1 n xs)
  then show ?case by (cases "xs = []") (simp_all add: slices_Nil slices_step)
qed

lemma slices_bounds: "0 < n \<Longrightarrow> g \<in> set (slices n xs) \<Longrightarrow> g \<noteq> [] \<and> length g \<le> n"
proof (induction n xs rule: slices.induct)
  case (1 n xs)
  then show ?case
    by (cases "xs = []") (auto simp: slices_Nil slices_step)
qed

lemma slices_butlast: "0 < n \<Longrightarrow> g \<in> set (butlast (slices n xs)) \<Longrightarrow> length g = n"
proof (induction n xs rule: slices.induct)
  case (1 n xs)
  show ?case
  proof (cases "xs = []")
    case True with 1(3) show ?thesis by (simp add: slices_Nil)
  next
    case False
    show ?thesis
    proof (cases "drop n xs = []")
      case True
      with False 1(2,3) show ?thesis by (simp add: slices_step slices_Nil)
    next
      case ne: False
      then have "length (take n xs) = n" by simp
      moreover have "slices n (drop n xs) \<noteq> []" using ne 1(2) by (simp add: slices_step)
      ultimately show ?thesis using 1 False by (auto simp: slices_step)
    qed
  qed
qed

lemma join_slices:
  "list_all (\<lambda>g. g \<noteq> []) gs \<Longrightarrow> join sep (map (join sep) gs) = join sep (concat gs)"
proof (induction gs)
  case Nil then show ?case by simp
next
  case (Cons g gs)
  show ?case
  proof (cases "gs = []")
    case True then show ?thesis by simp
  next
    case False
    with Cons have c: "concat gs \<noteq> []" by (cases gs) auto
    from Cons have g: "g \<noteq> []" by simp
    show ?thesis using Cons False c g by (simp add: join_Cons join_append)
  qed
qed

text \<open>
  Claim C5: for every text and language, with \<open>max_words\<close> left out or positive, the
  chunks joined with single spaces are the whitespace-normalized text (its tokens joined
  with single spaces); the token lists of the chunks, one after the other, are the token
  list of the text; every chunk is non-empty and holds between one and \<open>max_words\<close>
  tokens, and every chunk but the last holds exactly \<open>max_words\<close>; without \<open>max_words\<close>
  the bound is 300 for \<open>ur\<close> and 500 for \<open>en\<close>.
\<close>

theorem chunk_text_rejoins:
  assumes "max_words = None \<or> (\<exists>m. max_words = Some m \<and> 0 < m)"
  shows "\<exists>chunks.
           chunk_text text language max_words = Inr chunks
         \<and> join [0x20] chunks = join [0x20] (split_ws text)
         \<and> concat (map split_ws chunks) = split_ws text
         \<and> (\<forall>c\<in>set chunks. c \<noteq> [] \<and> 1 \<le> length (split_ws c)
               \<and> int (length (split_ws c))
                   \<le> (case max_words of
                         None \<Rightarrow> (if language = lang_ur then 300 else 500) | Some m \<Rightarrow> m))
         \<and> (\<forall>c\<in>set (butlast chunks).
               int (length (split_ws c))
                 = (case max_words of
                      None \<Rightarrow> (if language = lang_ur then 300 else 500) | Some m \<Rightarrow> m))
         \<and> chunk_text text lang_ur None = chunk_text text lang_ur (Some 300)
         \<and> chunk_text text lang_en None = chunk_text text lang_en (Some 500)"
proof -
  define M :: int where
    "M = (case max_words of None \<Rightarrow> (if language = lang_ur then 300 else 500) | Some m \<Rightarrow> m)"
  define ws where "ws = split_ws text"
  define gs where "gs = slices (nat M) ws"
  define chunks where "chunks = map (join [0x20]) gs"
  have M: "0 < M" using assms by (auto simp: M_def)
  then have n: "0 < nat M" by simp
  have tok: "list_all token ws" by (simp add: ws_def split_ws_tokens)
  have loop: "chunk_loop 0 (nat M) ws = chunks"
    using chunk_loop_slices[OF tok n, of 0] by (simp add: chunks_def gs_def)
  have c1: "chunk_text text language max_words = Inr chunks"
    using M loop by (simp add: chunk_text_def Let_def M_def[symmetric] ws_def[symmetric])
  have cat: "concat gs = ws" using n by (simp add: gs_def concat_slices)
  have gb: "g \<noteq> [] \<and> length g \<le> nat M" if "g \<in> set gs" for g
    using that n slices_bounds[of "nat M" g ws] by (simp add: gs_def)
  have gtok: "list_all token g" if "g \<in> set gs" for g
  proof -
    from that have "set g \<subseteq> set (concat gs)" by auto
    with tok cat show ?thesis by (auto simp: list_all_iff)
  qed
  have sj: "split_ws (join [0x20] g) = g" if "g \<in> set gs" for g
    using gtok[OF that] by (rule split_ws_join)
  have msj: "map split_ws chunks = gs"
    unfolding chunks_def using sj by (simp add: map_idI)
  have c2: "join [0x20] chunks = join [0x20] ws"
    unfolding chunks_def using join_slices[of gs "[0x20]"] gb cat by (simp add: list_all_iff)
  have c3: "concat (map split_ws chunks) = ws" using msj cat by simp
  have c4: "c \<noteq> [] \<and> 1 \<le> length (split_ws c) \<and> int (length (split_ws c)) \<le> M"
    if "c \<in> set chunks" for c
  proof -
    from that obtain g where g: "g \<in> set gs" "c = join [0x20] g" by (auto simp: chunks_def)
    have "strip c \<noteq> []" using g gtok[OF g(1)] gb[OF g(1)] by (simp add: strip_join_tokens)
    then have "c \<noteq> []" by (auto simp: strip_def)
    moreover have "split_ws c = g" using g sj by simp
    ultimately show ?thesis using gb[OF g(1)] M by (cases g) auto
  qed
  have c5: "int (length (split_ws c)) = M" if "c \<in> set (butlast chunks)" for c
  proof -
    from that have "c \<in> set (map (join [0x20]) (butlast gs))" by (simp add: chunks_def map_butlast)
    then obtain g where g: "g \<in> set (butlast gs)" "c = join [0x20] g" by auto
    then have "g \<in> set gs" by (meson in_set_butlastD)
    then have "split_ws c = g" using g sj by simp
    moreover have "length g = nat M" using g(1) n slices_butlast[of "nat M" g ws] by (simp add: gs_def)
    ultimately show ?thesis using M by simp
  qed
  have c6: "chunk_text text lang_ur None = chunk_text text lang_ur (Some 300)"
    by (simp add: chunk_text_def)
  have c7: "chunk_text text lang_en None = chunk_text text lang_en (Some 500)"
    by (simp add: chunk_text_def ascii_def)
  have final: "chunk_text text language max_words = Inr chunks
         \<and> join [0x20] chunks = join [0x20] ws
         \<and> concat (map split_ws chunks) = ws
         \<and> (\<forall>c\<in>set chunks. c \<noteq> [] \<and> 1 \<le> length (split_ws c)
               \<and> int (length (split_ws c)) \<le> M)
         \<and> (\<forall>c\<in>set (butlast chunks). int (length (split_ws c)) = M)
         \<and> chunk_text text lang_ur None = chunk_text text lang_ur (Some 300)
         \<and> chunk_text text lang_en None = chunk_text text lang_en (Some 500)"
  proof -
    have c4': "\<forall>c\<in>set chunks. c \<noteq> [] \<and> 1 \<le> length (split_ws c)
               \<and> int (length (split_ws c)) \<le> M" using c4 by blast
    have c5': "\<forall>c\<in>set (butlast chunks). int (length (split_ws c)) = M" using c5 by blast
    show ?thesis
      by (rule conjI[OF c1 conjI[OF c2 conjI[OF c3 conjI[OF c4' conjI[OF c5' conjI[OF c6 c7]]]]]])
  qed
  show ?thesis
    by (rule exI[of _ chunks]) (rule final[unfolded M_def ws_def])
qed

theorem chunk_text_rejoins_witness:
  "(Some 2 = (None :: int option) \<or> (\<exists>m. Some 2 = Some m \<and> (0::int) < m))
   \<and> chunk_text (ascii '' a b  c d e '') lang_en (Some 2)
       = Inr [ascii ''a b'', ascii ''c d'', ascii ''e'']
   \<and> join [0x20] [ascii ''a b'', ascii ''c d'', ascii ''e'']
       = join [0x20] (split_ws (ascii '' a b  c d e ''))"
proof -
  have h: "Some 2 = (None :: int option) \<or> (\<exists>m. Some 2 = Some m \<and> (0::int) < m)" by simp
  have v: "chunk_text (ascii '' a b  c d e '') lang_en (Some 2)
       = Inr [ascii ''a b'', ascii ''c d'', ascii ''e'']"
    by (simp add: chunk_text_def split_ws_def strip_def isspace_def ascii_def Let_def
          chunk_loop.simps)
  from chunk_text_rejoins [OF h, of "ascii '' a b  c d e ''" lang_en]
  obtain chunks where
    c: "chunk_text (ascii '' a b  c d e '') lang_en (Some 2) = Inr chunks"
       "join [0x20] chunks = join [0x20] (split_ws (ascii '' a b  c d e ''))"
    by blast
  from c(1) v have "chunks = [ascii ''a b'', ascii ''c d'', ascii ''e'']" by simp
  with c(2) h v show ?thesis by simp
qed

section \<open>Key phrase extractor\<close>

lemma count_words_fold:
  "count_words stop words d = fold bump (counted_words stop words) d"
  by (induction words arbitrary: d) (auto simp: counted_words_def)

lemma bump_keys_in: "k \<in> fst ` set d \<Longrightarrow> map fst (bump k d) = map fst d"
proof (induction d)
  case Nil then show ?case by simp
next
  case (Cons a d)
  show ?case
  proof (cases "fst a = k")
    case True then show ?thesis by (cases a) simp
  next
    case False
    with Cons.prems have "k \<in> fst ` set d" by auto
    with Cons.IH False show ?thesis by (cases a) simp
  qed
qed

lemma bump_keys_new: "k \<notin> fst ` set d \<Longrightarrow> bump k d = d @ [(k, 1)]"
  by (induction d) auto

lemma bump_keys:
  "map fst (bump k d) = (if k \<in> set (map fst d) then map fst d else map fst d @ [k])"
  by (simp add: bump_keys_in bump_keys_new)

lemma map_of_bump:
  "map_of (bump k d) = (map_of d)(k \<mapsto> (case map_of d k of None \<Rightarrow> 1 | Some n \<Rightarrow> n + 1))"
  by (induction d) (auto simp: fun_eq_iff)

lemma first_pos_less: "x \<in> set xs \<Longrightarrow> first_pos xs x < length xs"
  unfolding first_pos_def by (induction xs) auto

lemma first_pos_append_in: "x \<in> set xs \<Longrightarrow> first_pos (xs @ ys) x = first_pos xs x"
  unfolding first_pos_def by (induction xs) auto

lemma first_pos_append_new: "x \<notin> set xs \<Longrightarrow> first_pos (xs @ [x]) x = length xs"
  unfolding first_pos_def by (induction xs) auto

lemma counted_fold: "counted ks (fold bump ks [])"
proof (induction ks rule: rev_induct)
  case Nil
  show ?case by (simp add: counted_def)
next
  case (snoc k ks)
  let ?d = "fold bump ks []"
  have keys: "set (map fst ?d) = set ks" and dist: "distinct (map fst ?d)"
    and cnt: "\<And>a. map_of ?d a = (if a \<in> set ks then Some (count_list ks a) else None)"
    and ord: "sorted_wrt (\<lambda>a b. first_pos ks a < first_pos ks b) (map fst ?d)"
    using snoc by (simp_all add: counted_def)
  have step: "fold bump (ks @ [k]) [] = bump k ?d" by simp
  have ord': "sorted_wrt (\<lambda>a b. first_pos (ks @ [k]) a < first_pos (ks @ [k]) b) (map fst ?d)"
    using ord keys
    by (elim sorted_wrt_mono_rel[rotated]) (simp add: first_pos_append_in)
  have c: "map_of (bump k ?d) a
      = (if a \<in> set (ks @ [k]) then Some (count_list (ks @ [k]) a) else None)" for a
    by (simp add: map_of_bump cnt)
  show ?case
  proof (cases "k \<in> set ks")
    case True
    then have "map fst (bump k ?d) = map fst ?d" using keys by (simp add: bump_keys)
    then show ?thesis
      unfolding step counted_def using dist keys True ord' c by auto
  next
    case False
    then have m: "map fst (bump k ?d) = map fst ?d @ [k]" using keys by (simp add: bump_keys)
    have "first_pos (ks @ [k]) a < first_pos (ks @ [k]) k" if "a \<in> set ks" for a
      using that False first_pos_less[of a ks]
      by (simp add: first_pos_append_in first_pos_append_new)
    then have "sorted_wrt (\<lambda>a b. first_pos (ks @ [k]) a < first_pos (ks @ [k]) b)
                 (map fst ?d @ [k])"
      using ord' keys by (simp add: sorted_wrt_append)
    then show ?thesis
      unfolding step counted_def m using dist keys False c m by auto
  qed
qed

lemma sorted_wrt_filter_iff:
  "sorted_wrt R (filter P xs) = sorted_wrt (\<lambda>a b. P a \<and> P b \<longrightarrow> R a b) xs"
  by (induction xs) auto

lemma stable_ranking:
  fixes d :: "('a \<times> nat) list"
  assumes "sorted_wrt R d"
  shows "sorted_wrt (\<lambda>a b. snd b \<le> snd a \<and> (snd a = snd b \<longrightarrow> R a b))
           (sort_key (\<lambda>x. - int (snd x)) d)"
proof -
  let ?f = "\<lambda>x::'a \<times> nat. - int (snd x)"
  let ?s = "sort_key ?f d"
  have srt: "sorted (map ?f ?s)" by (rule sorted_sort_key)
  have tie: "sorted_wrt (\<lambda>a b. ?f a = v \<and> ?f b = v \<longrightarrow> R a b) ?s" for v
  proof -
    have "sorted_wrt R (filter (\<lambda>y. ?f y = v) d)" using assms by (rule sorted_wrt_filter)
    then have "sorted_wrt R (filter (\<lambda>y. ?f y = v) ?s)" by (simp only: sort_key_stable)
    then show ?thesis by (simp only: sorted_wrt_filter_iff)
  qed
  show ?thesis
    unfolding sorted_wrt_iff_nth_less
  proof (intro allI impI)
    fix i j assume ij: "i < j" "j < length ?s"
    have "?f (?s ! i) \<le> ?f (?s ! j)"
      using srt ij by (simp add: sorted_iff_nth_mono del: sorted_sort_key)
    then have a: "snd (?s ! j) \<le> snd (?s ! i)" by simp
    have "?f (?s ! i) = ?f (?s ! i) \<and> ?f (?s ! j) = ?f (?s ! i) \<longrightarrow> R (?s ! i) (?s ! j)"
      using tie[of "?f (?s ! i)"] ij unfolding sorted_wrt_iff_nth_less by blast
    then have b: "snd (?s ! i) = snd (?s ! j) \<longrightarrow> R (?s ! i) (?s ! j)" by simp
    from a b show "snd (?s ! j) \<le> snd (?s ! i) \<and> (snd (?s ! i) = snd (?s ! j) \<longrightarrow> R (?s ! i) (?s ! j))"
      by blast
  qed
qed

text \<open>
  Claim C7: for every text and each of the two supported languages, \<open>extract_key_phrases\<close>
  returns at most 10 tokens; none of them is a stop word of the language and none has
  length 2 or less; they come in descending order of frequency (the number of
  occurrences among the words that the counting loop lets through), and of two tokens of
  equal frequency the one met first in that scan comes first.
\<close>

theorem extract_key_phrases_ranked:
  assumes "language = lang_ur \<or> language = lang_en"
  shows "\<exists>stop phrases.
           stop_words language = Some stop
         \<and> extract_key_phrases lower isalnum text language = Inr phrases
         \<and> length phrases \<le> 10
         \<and> (\<forall>p\<in>set phrases. p \<notin> set stop \<and> 2 < length p)
         \<and> sorted_wrt
               (\<lambda>p q. count_list (counted_words stop
                               (key_phrase_words lower isalnum text language)) q
                         \<le> count_list (counted_words stop
                               (key_phrase_words lower isalnum text language)) p
                     \<and> (count_list (counted_words stop
                               (key_phrase_words lower isalnum text language)) p
                          = count_list (counted_words stop
                               (key_phrase_words lower isalnum text language)) q
                          \<longrightarrow> first_pos (counted_words stop
                                 (key_phrase_words lower isalnum text language)) p
                              < first_pos (counted_words stop
                                 (key_phrase_words lower isalnum text language)) q))
               phrases"
proof -
  from assms obtain stop where stop: "stop_words language = Some stop"
    by (cases "language = lang_ur") (auto simp: stop_words_def)
  define ks where "ks = counted_words stop (key_phrase_words lower isalnum text language)"
  define d where "d = fold bump ks []"
  define s where "s = sort_key (\<lambda>x. - int (snd x)) d"
  define phrases where "phrases = map fst (take 10 s)"
  have run: "extract_key_phrases lower isalnum text language = Inr phrases"
    by (simp add: extract_key_phrases_def stop top_words_def count_words_fold Let_def
          phrases_def s_def d_def ks_def)
  have inv: "counted ks d" unfolding d_def by (rule counted_fold)
  then have keys: "set (map fst d) = set ks" and dist: "distinct (map fst d)"
    and cnt: "\<And>a. map_of d a = (if a \<in> set ks then Some (count_list ks a) else None)"
    and ord: "sorted_wrt (\<lambda>a b. first_pos ks a < first_pos ks b) (map fst d)"
    by (simp_all add: counted_def)
  have sset: "set s = set d" by (simp add: s_def)
  have snd_count: "snd a = count_list ks (fst a)" if "a \<in> set s" for a
  proof -
    from that sset have "(fst a, snd a) \<in> set d" by simp
    with dist have "map_of d (fst a) = Some (snd a)" by simp
    with cnt[of "fst a"] show ?thesis by (simp split: if_splits)
  qed
  have len: "length phrases \<le> 10" by (simp add: phrases_def)
  have mem: "p \<notin> set stop \<and> 2 < length p" if "p \<in> set phrases" for p
  proof -
    from that have "p \<in> fst ` set (take 10 s)" by (simp add: phrases_def)
    then have "p \<in> fst ` set s" by (auto dest: in_set_takeD)
    with sset keys have "p \<in> set ks" by auto
    then show ?thesis by (simp add: ks_def counted_words_def)
  qed
  have "sorted_wrt (\<lambda>a b. first_pos ks (fst a) < first_pos ks (fst b)) d"
    using ord by (simp add: sorted_wrt_map)
  then have "sorted_wrt (\<lambda>a b. snd b \<le> snd a
                 \<and> (snd a = snd b \<longrightarrow> first_pos ks (fst a) < first_pos ks (fst b))) s"
    unfolding s_def by (rule stable_ranking)
  then have "sorted_wrt (\<lambda>a b. count_list ks (fst b) \<le> count_list ks (fst a)
                 \<and> (count_list ks (fst a) = count_list ks (fst b)
                      \<longrightarrow> first_pos ks (fst a) < first_pos ks (fst b))) s"
    by (rule sorted_wrt_mono_rel[rotated]) (simp add: snd_count)
  then have "sorted_wrt (\<lambda>a b. count_list ks (fst b) \<le> count_list ks (fst a)
                 \<and> (count_list ks (fst a) = count_list ks (fst b)
                      \<longrightarrow> first_pos ks (fst a) < first_pos ks (fst b))) (take 10 s)"
    by (rule sorted_wrt_take)
  then have rank: "sorted_wrt (\<lambda>p q. count_list ks q \<le> count_list ks p
                 \<and> (count_list ks p = count_list ks q
                      \<longrightarrow> first_pos ks p < first_pos ks q)) phrases"
    by (simp add: phrases_def sorted_wrt_map)
  have mem': "\<forall>p\<in>set phrases. p \<notin> set stop \<and> 2 < length p" using mem by blast
  have final: "stop_words language = Some stop
         \<and> extract_key_phrases lower isalnum text language = Inr phrases
         \<and> length phrases \<le> 10
         \<and> (\<forall>p\<in>set phrases. p \<notin> set stop \<and> 2 < length p)
         \<and> sorted_wrt (\<lambda>p q. count_list ks q \<le> count_list ks p
                 \<and> (count_list ks p = count_list ks q
                      \<longrightarrow> first_pos ks p < first_pos ks q)) phrases"
    by (rule conjI[OF stop conjI[OF run conjI[OF len conjI[OF mem' rank]]]])
  show ?thesis
    by (rule exI[of _ stop], rule exI[of _ phrases]) (rule final[unfolded ks_def])
qed

theorem extract_key_phrases_ranked_witness:
  "(lang_en = lang_ur \<or> lang_en = lang_en)
   \<and> extract_key_phrases ascii_lower (\<lambda>c. False)
        (ascii ''The cat and the Dog saw a dog, a cat, a bird'') lang_en
       = Inr [ascii ''cat'', ascii ''dog'', ascii ''saw'', ascii ''bird'']
   \<and> sorted_wrt
         (\<lambda>p q. count_list (counted_words en_stop_words
                    (key_phrase_words ascii_lower (\<lambda>c. False)
                       (ascii ''The cat and the Dog saw a dog, a cat, a bird'') lang_en)) q
                 \<le> count_list (counted_words en_stop_words
                    (key_phrase_words ascii_lower (\<lambda>c. False)
                       (ascii ''The cat and the Dog saw a dog, a cat, a bird'') lang_en)) p)
         [ascii ''cat'', ascii ''dog'', ascii ''saw'', ascii ''bird'']"
proof -
  let ?t = "ascii ''The cat and the Dog saw a dog, a cat, a bird''"
  have h: "lang_en = lang_ur \<or> lang_en = lang_en" by simp
  have st: "stop_words lang_en = Some en_stop_words"
    by (simp add: stop_words_def ascii_def)
  have v: "extract_key_phrases ascii_lower (\<lambda>c. False) ?t lang_en
       = Inr [ascii ''cat'', ascii ''dog'', ascii ''saw'', ascii ''bird'']"
    by (simp add: extract_key_phrases_def key_phrase_words_def findall_en_def re_word_def
          ascii_letter_def ascii_digit_def stop_words_def en_stop_words_def top_words_def
          ascii_def ascii_lower_def Let_def)
  from extract_key_phrases_ranked [OF h, of ascii_lower "\<lambda>c. False" ?t]
  obtain stop phrases where
    r: "stop_words lang_en = Some stop"
       "extract_key_phrases ascii_lower (\<lambda>c. False) ?t lang_en = Inr phrases"
       "sorted_wrt
         (\<lambda>p q. count_list (counted_words stop
                    (key_phrase_words ascii_lower (\<lambda>c. False) ?t lang_en)) q
                 \<le> count_list (counted_words stop
                    (key_phrase_words ascii_lower (\<lambda>c. False) ?t lang_en)) p
               \<and> (count_list (counted_words stop
                    (key_phrase_words ascii_lower (\<lambda>c. False) ?t lang_en)) p
                  = count_list (counted_words stop
                    (key_phrase_words ascii_lower (\<lambda>c. False) ?t lang_en)) q
                  \<longrightarrow> first_pos (counted_words stop
                        (key_phrase_words ascii_lower (\<lambda>c. False) ?t lang_en)) p
                      < first_pos (counted_words stop
                        (key_phrase_words ascii_lower (\<lambda>c. False) ?t lang_en)) q))
         phrases"
    by blast
  from r(1) st have s: "stop = en_stop_words" by simp
  from r(2) v have p: "phrases = [ascii ''cat'', ascii ''dog'', ascii ''saw'', ascii ''bird'']"
    by simp
  from r(3) have "sorted_wrt
         (\<lambda>p q. count_list (counted_words stop
                    (key_phrase_words ascii_lower (\<lambda>c. False) ?t lang_en)) q
                 \<le> count_list (counted_words stop
                    (key_phrase_words ascii_lower (\<lambda>c. False) ?t lang_en)) p)
         phrases"
    by (rule sorted_wrt_mono_rel[rotated]) simp
  then show ?thesis unfolding s p using h v by blast
qed

section \<open>Summarization adapter\<close>

lemma runs_of_all_space:
  "\<forall>c\<in>set s. \<not> P c \<Longrightarrow> runs_of P [] s = []"
  by (induction s) auto

lemma split_ws_blank: "strip text = [] \<Longrightarrow> split_ws text = []"
  by (simp add: strip_Nil_iff split_ws_def runs_of_all_space)

lemma summarize_chunks_fst:
  "fst (summarize_chunks w st s language max_length min_length chunks)
   = map (summarize_chunk w s language max_length min_length) chunks"
  by (induction chunks arbitrary: st) (simp_all add: Let_def case_prod_beta)

lemma chunk_text_default:
  "chunk_text text language None
   = Inr (chunk_loop 0 (if language = lang_ur then 300 else 500) (split_ws text))"
  by (simp add: chunk_text_def Let_def)

lemma first_clauses_two:
  "first_clauses text language
   = (if language = lang_ur
      then join [0x6D4] (take 2 (split_on (\<lambda>c. c = 0x6D4) text)) @ [0x6D4]
      else join [0x2E] (take 2 (split_on (\<lambda>c. c = 0x2E) text)) @ [0x2E])"
  by (simp add: first_clauses_def Let_def)

lemma summarize_chunk_alt:
  "summarize_chunk w s language max_length min_length
   = (\<lambda>chunk.
        case summarizer_call w s
               (if mt5_config s then ascii ''summarize: '' @ chunk else chunk)
               max_length min_length of
          Inr summary \<Rightarrow> summary
        | Inl e \<Rightarrow>
            fallback_marker
            @ (if language = lang_ur
               then join [0x6D4] (take 2 (split_on (\<lambda>c. c = 0x6D4) chunk)) @ [0x6D4]
               else join [0x2E] (take 2 (split_on (\<lambda>c. c = 0x2E) chunk)) @ [0x2E]))"
  by (rule ext) (simp add: summarize_chunk_def first_clauses_two Let_def split: sum.splits)

lemma summarize_text_load_error:
  assumes "20 \<le> length (split_ws text)"
    and "load_summarizer w st language = (Inl e, st1)"
  shows "summarize_text w st text language max_length min_length = (Inl e, st1)"
proof -
  from assms(1) have "strip text \<noteq> []" using split_ws_blank[of "text"] by auto
  moreover from assms(1) have "\<not> length (split_ws text) < 20" by simp
  ultimately show ?thesis using assms(2) by (simp add: summarize_text_def Let_def)
qed

lemma summarize_text_with_summarizer:
  assumes "fst (load_summarizer w st language) = Inr s"
    and "20 \<le> length (split_ws text)"
  shows "fst (summarize_text w st text language max_length min_length)
        = Inr (join [0xA, 0xA]
            (map (summarize_chunk w s language
                    (case max_length of
                       None \<Rightarrow> (if language = lang_ur then 8 else 150) | Some m \<Rightarrow> m)
                    (case min_length of
                       None \<Rightarrow> (if language = lang_ur then 3 else 50) | Some m \<Rightarrow> m))
               (chunk_loop 0 (if language = lang_ur then 300 else 500) (split_ws text))))"
proof -
  from assms(2) have ne: "strip text \<noteq> []" using split_ws_blank[of "text"] by auto
  from assms(2) have ge: "\<not> length (split_ws text) < 20" by simp
  from assms(1) obtain st1 where l: "load_summarizer w st language = (Inr s, st1)"
    by (cases "load_summarizer w st language") simp
  show ?thesis
    using ne ge l
    by (simp add: summarize_text_def Let_def case_prod_beta summarize_chunks_fst
          chunk_text_default)
qed

lemma load_summarizer_routes:
  assumes "loaded_summarizer st = Some s
        \<or> (loaded_summarizer st = None
            \<and> hf_pipeline w (if language = lang_en then bart else mt5)
                  (Some (if language = lang_en then bart else mt5)) = Inr s)
        \<or> (loaded_summarizer st = None
            \<and> (\<exists>e. hf_pipeline w (if language = lang_en then bart else mt5)
                       (Some (if language = lang_en then bart else mt5)) = Inl e)
            \<and> hf_pipeline w bart None = Inr s)"
  shows "fst (load_summarizer w st language) = Inr s"
  using assms by (auto simp: load_summarizer_def Let_def)

lemma load_summarizer_cached:
  "loaded_summarizer st = Some s \<Longrightarrow> load_summarizer w st language = (Inr s, st)"
  by (simp add: load_summarizer_def)

lemmas text_eval = ascii_def isspace_def strip_def split_ws_def Let_def

lemmas world_eval =
  demo_world_def offline_world_def failing_calls_world_def new_processor_def

lemma demo_text_tokens: "length (split_ws demo_text) = 24"
  by (simp add: demo_text_def text_eval)

lemma demo_text_strip: "strip demo_text \<noteq> []"
  by (simp add: demo_text_def text_eval)

lemma summarize_chunks_keeps_summarizer:
  "loaded_summarizer (snd (summarize_chunks w st s language max_length min_length chunks))
   = loaded_summarizer st"
  by (induction chunks arbitrary: st) (simp_all add: Let_def case_prod_beta log_event_def)

lemma demo_text_chunks: "chunk_text demo_text lang_en None = Inr [demo_text]"
  by (simp add: chunk_text_def chunk_loop.simps demo_text_def text_eval)

lemma demo_text_clauses:
  "join [0x2E] (take 2 (split_on (\<lambda>c. c = 0x2E) demo_text)) @ [0x2E]
   = ascii ''The cat sat down. The dog ran away.''"
  by (simp add: demo_text_def ascii_def)

lemma load_summarizer_offline:
  "load_summarizer offline_world (new_processor sz) lang_en
   = (Inl (ExternalError (ascii ''model not available'')),
      (new_processor sz)\<lparr>events := [LoadPipeline bart, LoadPipeline bart]\<rparr>)"
  by (simp add: load_summarizer_def world_eval log_event_def Let_def)

lemma load_summarizer_demo:
  "load_summarizer (demo_world\<lparr>summarizer_call := f\<rparr>) (new_processor sz) lang_en
   = (Inr \<lparr>model_name = bart, mt5_config = False\<rparr>,
      (new_processor sz)\<lparr>loaded_summarizer := Some \<lparr>model_name = bart, mt5_config = False\<rparr>,
                          events := [LoadPipeline bart]\<rparr>)"
  by (simp add: load_summarizer_def world_eval log_event_def Let_def bart_def mt5_def ascii_def)

text \<open>
  Claim C8, as the specification states it: every text of fewer than 20 tokens, the empty
  text included, gets the short-text sentinel. The empty text gets another string.
\<close>

theorem summarize_text_empty_counterexample:
  "fst (summarize_text demo_world (new_processor (ascii ''medium'')) [] lang_en None None)
     \<noteq> Inr too_short_message"
  by (simp add: summarize_text_def strip_def empty_input_message_def too_short_message_def)

text \<open>
  Claim C8, amended: for every text of fewer than 20 whitespace tokens \<open>summarize_text\<close>
  returns a fixed sentinel and raises nothing: the empty-input sentinel when the text is
  empty or all whitespace, the short-text sentinel otherwise. The processor is returned
  as it was, so no summarizer has been loaded and no external call has been made.
\<close>

theorem summarize_text_short:
  assumes "length (split_ws text) < 20"
  shows "summarize_text w st text language max_length min_length
         = (Inr (if strip text = [] then empty_input_message else too_short_message), st)"
  using assms by (simp add: summarize_text_def)

theorem summarize_text_short_witness:
  "length (split_ws (ascii ''Hello world'')) < 20
   \<and> summarize_text offline_world (new_processor (ascii ''medium'')) (ascii ''Hello world'')
        lang_en None None
     = (Inr too_short_message, new_processor (ascii ''medium''))"
proof -
  have h: "length (split_ws (ascii ''Hello world'')) < 20" by (simp add: text_eval)
  have s: "strip (ascii ''Hello world'') \<noteq> []" by (simp add: text_eval)
  from summarize_text_short [OF h, of offline_world "new_processor (ascii ''medium'')"
      lang_en None None] h s
  show ?thesis by simp
qed

text \<open>
  Claim C3, as the specification states it: no failure of the summarization capability
  reaches the caller as an error. When neither the preferred model nor the BART
  fallback can be loaded, \<open>summarize_text\<close> raises what the second \<open>pipeline\<close> call raised.
\<close>

theorem summarize_text_load_failure_counterexample:
  "fst (summarize_text offline_world (new_processor (ascii ''medium'')) demo_text lang_en
          None None)
     = Inl (ExternalError (ascii ''model not available''))"
proof -
  have "20 \<le> length (split_ws demo_text)" by (simp add: demo_text_tokens)
  from summarize_text_load_error [OF this load_summarizer_offline]
  show ?thesis by simp
qed

text \<open>
  Claim C3, amended: for every text of at least 20 whitespace tokens, when a summarizer
  is cached, or none is cached and the preferred model loads, or none is cached, the
  preferred model fails to load and BART loads, \<open>summarize_text\<close> returns a string and
  raises nothing: the summaries of the chunks joined by a blank line, where a chunk whose
  summarizer call fails gives the fallback marker followed by the first two clauses of
  that chunk, joined with the terminator of the language and ended by it. When none is
  cached and neither the preferred model nor BART loads, the error of the BART load is
  raised to the caller.
\<close>

theorem summarize_text_degrades:
  assumes "20 \<le> length (split_ws text)"
  shows "\<exists>chunks. chunk_text text language None = Inr chunks
       \<and> (\<forall>s. (loaded_summarizer st = Some s
               \<or> (loaded_summarizer st = None
                  \<and> hf_pipeline w (if language = lang_en then bart else mt5)
                        (Some (if language = lang_en then bart else mt5)) = Inr s)
               \<or> (loaded_summarizer st = None
                  \<and> (\<exists>e. hf_pipeline w (if language = lang_en then bart else mt5)
                             (Some (if language = lang_en then bart else mt5)) = Inl e)
                  \<and> hf_pipeline w bart None = Inr s))
              \<longrightarrow> fst (summarize_text w st text language max_length min_length)
                   = Inr (join [0xA, 0xA]
                       (map (\<lambda>chunk.
                          case summarizer_call w s
                                 (if mt5_config s then ascii ''summarize: '' @ chunk else chunk)
                                 (case max_length of
                                    None \<Rightarrow> (if language = lang_ur then 8 else 150)
                                  | Some m \<Rightarrow> m)
                                 (case min_length of
                                    None \<Rightarrow> (if language = lang_ur then 3 else 50)
                                  | Some m \<Rightarrow> m) of
                            Inr summary \<Rightarrow> summary
                          | Inl e \<Rightarrow>
                              fallback_marker
                              @ (if language = lang_ur
                                 then join [0x6D4] (take 2 (split_on (\<lambda>c. c = 0x6D4) chunk))
                                      @ [0x6D4]
                                 else join [0x2E] (take 2 (split_on (\<lambda>c. c = 0x2E) chunk))
                                      @ [0x2E]))
                         chunks)))
       \<and> (\<forall>e e2. loaded_summarizer st = None
              \<and> hf_pipeline w (if language = lang_en then bart else mt5)
                    (Some (if language = lang_en then bart else mt5)) = Inl e
              \<and> hf_pipeline w bart None = Inl e2
              \<longrightarrow> fst (summarize_text w st text language max_length min_length) = Inl e2)"
proof -
  let ?chunks = "chunk_loop 0 (if language = lang_ur then 300 else 500) (split_ws text)"
  let ?pref = "if language = lang_en then bart else mt5"
  have c: "chunk_text text language None = Inr ?chunks" by (rule chunk_text_default)
  have ok: "fst (summarize_text w st text language max_length min_length)
        = Inr (join [0xA, 0xA]
            (map (summarize_chunk w s language
                    (case max_length of
                       None \<Rightarrow> (if language = lang_ur then 8 else 150) | Some m \<Rightarrow> m)
                    (case min_length of
                       None \<Rightarrow> (if language = lang_ur then 3 else 50) | Some m \<Rightarrow> m))
               ?chunks))"
    if "loaded_summarizer st = Some s
        \<or> (loaded_summarizer st = None \<and> hf_pipeline w ?pref (Some ?pref) = Inr s)
        \<or> (loaded_summarizer st = None \<and> (\<exists>e. hf_pipeline w ?pref (Some ?pref) = Inl e)
            \<and> hf_pipeline w bart None = Inr s)" for s
  proof -
    from that have "fst (load_summarizer w st language) = Inr s"
      by (rule load_summarizer_routes)
    then show ?thesis using assms by (rule summarize_text_with_summarizer)
  qed
  have bad: "fst (summarize_text w st text language max_length min_length) = Inl e2"
    if "loaded_summarizer st = None \<and> hf_pipeline w ?pref (Some ?pref) = Inl e
        \<and> hf_pipeline w bart None = Inl e2" for e e2
  proof -
    from that have "fst (load_summarizer w st language) = Inl e2"
      by (simp add: load_summarizer_def Let_def)
    then obtain st1 where "load_summarizer w st language = (Inl e2, st1)"
      by (cases "load_summarizer w st language") simp
    from summarize_text_load_error[OF assms this] show ?thesis by simp
  qed
  show ?thesis
    by (rule exI[of _ ?chunks])
       (rule conjI[OF c conjI[OF allI[OF impI[OF ok[unfolded summarize_chunk_alt]]]
                                 allI[OF allI[OF impI[OF bad]]]]])
qed

theorem summarize_text_degrades_witness:
  "20 \<le> length (split_ws demo_text)
   \<and> fst (summarize_text failing_calls_world (new_processor (ascii ''medium'')) demo_text
            lang_en None None)
     = Inr (fallback_marker @ ascii ''The cat sat down. The dog ran away.'')"
proof -
  let ?s = "\<lparr>model_name = bart, mt5_config = False\<rparr>"
  have h: "20 \<le> length (split_ws demo_text)" by (simp add: demo_text_tokens)
  have l: "loaded_summarizer (new_processor (ascii ''medium'')) = None
           \<and> hf_pipeline failing_calls_world (if lang_en = lang_en then bart else mt5)
                (Some (if lang_en = lang_en then bart else mt5)) = Inr ?s"
    by (simp add: failing_calls_world_def demo_world_def new_processor_def bart_def mt5_def
          ascii_def)
  have en: "lang_en \<noteq> lang_ur" by (simp add: ascii_def)
  from summarize_text_degrades [OF h, of lang_en "new_processor (ascii ''medium'')"
      failing_calls_world None None]
  obtain chunks where
    c: "chunk_text demo_text lang_en None = Inr chunks"
    and r: "\<forall>s. (loaded_summarizer (new_processor (ascii ''medium'')) = Some s
               \<or> (loaded_summarizer (new_processor (ascii ''medium'')) = None
                  \<and> hf_pipeline failing_calls_world (if lang_en = lang_en then bart else mt5)
                        (Some (if lang_en = lang_en then bart else mt5)) = Inr s)
               \<or> (loaded_summarizer (new_processor (ascii ''medium'')) = None
                  \<and> (\<exists>e. hf_pipeline failing_calls_world
                             (if lang_en = lang_en then bart else mt5)
                             (Some (if lang_en = lang_en then bart else mt5)) = Inl e)
                  \<and> hf_pipeline failing_calls_world bart None = Inr s))
              \<longrightarrow> fst (summarize_text failing_calls_world (new_processor (ascii ''medium''))
                         demo_text lang_en None None)
                   = Inr (join [0xA, 0xA]
                       (map (\<lambda>chunk.
                          case summarizer_call failing_calls_world s
                                 (if mt5_config s then ascii ''summarize: '' @ chunk else chunk)
                                 (case None of
                                    None \<Rightarrow> (if lang_en = lang_ur then 8 else 150)
                                  | Some m \<Rightarrow> m)
                                 (case None of
                                    None \<Rightarrow> (if lang_en = lang_ur then 3 else 50)
                                  | Some m \<Rightarrow> m) of
                            Inr summary \<Rightarrow> summary
                          | Inl e \<Rightarrow>
                              fallback_marker
                              @ (if lang_en = lang_ur
                                 then join [0x6D4] (take 2 (split_on (\<lambda>c. c = 0x6D4) chunk))
                                      @ [0x6D4]
                                 else join [0x2E] (take 2 (split_on (\<lambda>c. c = 0x2E) chunk))
                                      @ [0x2E]))
                         chunks))"
    by blast
  from c have ch: "chunks = [demo_text]" by (simp add: demo_text_chunks)
  from r[rule_format, of ?s] l
  have "fst (summarize_text failing_calls_world (new_processor (ascii ''medium''))
                         demo_text lang_en None None)
                   = Inr (join [0xA, 0xA]
                       (map (\<lambda>chunk.
                          case summarizer_call failing_calls_world ?s
                                 (if mt5_config ?s then ascii ''summarize: '' @ chunk else chunk)
                                 (case None of
                                    None \<Rightarrow> (if lang_en = lang_ur then 8 else 150)
                                  | Some m \<Rightarrow> m)
                                 (case None of
                                    None \<Rightarrow> (if lang_en = lang_ur then 3 else 50)
                                  | Some m \<Rightarrow> m) of
                            Inr summary \<Rightarrow> summary
                          | Inl e \<Rightarrow>
                              fallback_marker
                              @ (if lang_en = lang_ur
                                 then join [0x6D4] (take 2 (split_on (\<lambda>c. c = 0x6D4) chunk))
                                      @ [0x6D4]
                                 else join [0x2E] (take 2 (split_on (\<lambda>c. c = 0x2E) chunk))
                                      @ [0x2E]))
                         chunks))"
    by blast
  with ch en h show ?thesis
    by (simp add: failing_calls_world_def demo_world_def demo_text_clauses)
qed

text \<open>
  Claim C4 at its failing input: on a new processor, after \<open>summarize_text\<close> has run on
  an English text with the language \<open>en\<close>, the summarizer that \<open>_load_summarizer\<close> returns
  for the language \<open>ur\<close> is the cached BART handle, although mT5 would load in that world.
\<close>

theorem load_summarizer_keeps_first_language:
  "fst (load_summarizer demo_world
          (snd (summarize_text demo_world (new_processor (ascii ''medium'')) demo_text
                  lang_en None None))
          lang_ur)
     = Inr \<lparr>model_name = bart, mt5_config = False\<rparr>
   \<and> hf_pipeline demo_world mt5 (Some mt5) = Inr \<lparr>model_name = mt5, mt5_config = True\<rparr>
   \<and> fst (load_summarizer demo_world (new_processor (ascii ''medium'')) lang_ur)
     = Inr \<lparr>model_name = mt5, mt5_config = True\<rparr>"
proof -
  have l: "load_summarizer demo_world (new_processor (ascii ''medium'')) lang_en
     = (Inr \<lparr>model_name = bart, mt5_config = False\<rparr>,
        (new_processor (ascii ''medium''))
          \<lparr>loaded_summarizer := Some \<lparr>model_name = bart, mt5_config = False\<rparr>,
           events := [LoadPipeline bart]\<rparr>)"
    using load_summarizer_demo [of "summarizer_call demo_world" "ascii ''medium''"] by simp
  have "loaded_summarizer
          (snd (summarize_text demo_world (new_processor (ascii ''medium'')) demo_text
                  lang_en None None))
        = Some \<lparr>model_name = bart, mt5_config = False\<rparr>"
    by (simp add: summarize_text_def demo_text_tokens demo_text_strip demo_text_chunks l
          Let_def case_prod_beta summarize_chunks_keeps_summarizer log_event_def)
  then have a: "fst (load_summarizer demo_world
          (snd (summarize_text demo_world (new_processor (ascii ''medium'')) demo_text
                  lang_en None None))
          lang_ur)
     = Inr \<lparr>model_name = bart, mt5_config = False\<rparr>"
    by (simp add: load_summarizer_cached)
  have b: "hf_pipeline demo_world mt5 (Some mt5) = Inr \<lparr>model_name = mt5, mt5_config = True\<rparr>"
    by (simp add: demo_world_def)
  have c: "fst (load_summarizer demo_world (new_processor (ascii ''medium'')) lang_ur)
     = Inr \<lparr>model_name = mt5, mt5_config = True\<rparr>"
    by (simp add: load_summarizer_def world_eval log_event_def Let_def ascii_def)
  from a b c show ?thesis by simp
qed

section \<open>Pipeline orchestrator\<close>

lemma success_neq_error: "ascii ''success'' \<noteq> ascii ''error''"
  by (simp add: ascii_def)

lemma process_pipeline_status:
  "fst (process_pipeline w st file_name language) ''status'' = Some (VStr (ascii ''success''))
   \<or> fst (process_pipeline w st file_name language) ''status'' = Some (VStr (ascii ''error''))"
  by (simp add: process_pipeline_def pipeline_failed_def Let_def
        split: prod.splits sum.splits option.splits)

lemma process_pipeline_missing_file:
  assumes "\<not> os_path_exists w (ascii ''audio/'' @ file_name @ ascii ''.mp3'')"
  shows "fst (process_pipeline w st file_name language)
         = [''status'' \<mapsto> VStr (ascii ''error''),
            ''error'' \<mapsto> VStr (ascii ''Pipeline failed: '' @ ascii ''Audio file not found: ''
                              @ ascii ''audio/'' @ file_name @ ascii ''.mp3'')]"
  using assms
  by (simp add: process_pipeline_def transcribe_audio_def pipeline_failed_def Let_def)

lemma write_file_ok:
  "open_write w path = None \<Longrightarrow> write_file w st path = (None, log_event (WriteFile path) st)"
  by (simp add: write_file_def)

lemma load_whisper_model_ok:
  assumes "\<forall>sz. \<exists>model. whisper_load_model w sz = Inr model"
  shows "\<exists>model st1. load_whisper_model w st = (Inr model, st1)"
proof (cases "whisper_model st")
  case (Some m)
  then show ?thesis by (simp add: load_whisper_model_def)
next
  case None
  from assms obtain m where "whisper_load_model w (model_size st) = Inr m" by blast
  with None show ?thesis by (simp add: load_whisper_model_def Let_def)
qed

lemma transcribe_audio_ok:
  assumes "item_capabilities w file_name language"
  shows "\<exists>transcription st1.
           transcribe_audio w st (ascii ''audio/'' @ file_name @ ascii ''.mp3'') language None
             = (Inr transcription, st1)"
proof -
  let ?p = "ascii ''audio/'' @ file_name @ ascii ''.mp3''"
  let ?out = "ascii ''transcripts/'' @ path_stem ?p @ ascii ''_transcription.txt''"
  from assms have ex: "os_path_exists w ?p"
    and lw: "\<forall>sz. \<exists>model. whisper_load_model w sz = Inr model"
    and tr: "\<forall>model. \<exists>result. whisper_transcribe w model ?p language = Inr result"
    and w1: "open_write w ?out = None"
    and w2: "open_write w (str_replace (ascii ''.txt'') (ascii ''_detailed.txt'') ?out) = None"
    by (simp_all add: item_capabilities_def)
  from load_whisper_model_ok[OF lw] obtain model st1
    where l: "load_whisper_model w st = (Inr model, st1)" by blast
  from tr obtain result
    where t: "whisper_transcribe w model ?p language = Inr result" by blast
  show ?thesis
    using ex l t
    by (simp add: transcribe_audio_def Let_def write_file_ok[OF w1] write_file_ok[OF w2])
qed

lemma process_sentences_ok:
  assumes "item_capabilities w file_name language"
  shows "\<exists>st1. process_sentences w st t language None
                = (Inr (regex_sentence_split t language), st1)"
proof -
  from assms have "open_write w (ascii ''analysis/sentences_'' @ language @ ascii ''.txt'') = None"
    by (simp add: item_capabilities_def)
  then show ?thesis by (simp add: process_sentences_def Let_def write_file_ok)
qed

lemma extract_key_phrases_ok:
  assumes "language = lang_ur \<or> language = lang_en"
  shows "\<exists>key_phrases. extract_key_phrases lower isalnum t language = Inr key_phrases"
  using assms
  by (cases "language = lang_ur") (auto simp: extract_key_phrases_def stop_words_def Let_def)

lemma load_summarizer_ok:
  assumes "item_capabilities w file_name language"
  shows "\<exists>s st1. load_summarizer w st language = (Inr s, st1)"
proof (cases "loaded_summarizer st")
  case (Some s)
  then show ?thesis by (simp add: load_summarizer_def)
next
  case None
  let ?name = "if language = lang_en then bart else mt5"
  from assms have m: "(\<exists>s. hf_pipeline w ?name (Some ?name) = Inr s)
                      \<or> (\<exists>s. hf_pipeline w bart None = Inr s)"
    by (simp add: item_capabilities_def)
  show ?thesis
  proof (cases "hf_pipeline w ?name (Some ?name)")
    case (Inr s)
    with None show ?thesis by (simp add: load_summarizer_def Let_def)
  next
    case (Inl e)
    with m obtain s where "hf_pipeline w bart None = Inr s" by auto
    with None Inl show ?thesis by (simp add: load_summarizer_def Let_def)
  qed
qed

lemma summarize_text_ok:
  assumes "item_capabilities w file_name language"
  shows "\<exists>summary st1. summarize_text w st t language None None = (Inr summary, st1)"
proof -
  from load_summarizer_ok[OF assms] obtain s st1
    where l: "load_summarizer w st language = (Inr s, st1)" by blast
  show ?thesis
    by (simp add: summarize_text_def Let_def l chunk_text_default case_prod_beta)
qed

lemma process_pipeline_ok:
  assumes "item_capabilities w file_name language"
    and "language = lang_ur \<or> language = lang_en"
  shows "fst (process_pipeline w st file_name language) ''status''
         = Some (VStr (ascii ''success''))"
proof -
  from transcribe_audio_ok[OF assms(1)] obtain t st1
    where a: "transcribe_audio w st (ascii ''audio/'' @ file_name @ ascii ''.mp3'') language None
              = (Inr t, st1)" by blast
  from process_sentences_ok[OF assms(1)] obtain st2
    where b: "process_sentences w st1 t language None
              = (Inr (regex_sentence_split t language), st2)" by blast
  from extract_key_phrases_ok[OF assms(2)] obtain kp
    where c: "extract_key_phrases (unicode_lower w) (unicode_isalnum w) t language = Inr kp"
    by blast
  from summarize_text_ok[OF assms(1)] obtain summary st3
    where d: "summarize_text w st2 (join [0x20] (regex_sentence_split t language)) language
                None None = (Inr summary, st3)" by blast
  from assms(1) have w4: "open_write w (ascii ''analysis/'' @ file_name @ ascii ''_'' @ language
                        @ ascii ''_summary.txt'') = None"
    by (simp add: item_capabilities_def)
  show ?thesis
    by (simp add: process_pipeline_def Let_def a b c d write_file_ok[OF w4])
qed

lemma batch_loop_dom:
  "dom (fst (batch_loop w language files (acc, st))) = dom acc \<union> path_stem ` set files"
  by (induction files arbitrary: acc st) (auto simp: Let_def case_prod_beta)

lemma batch_loop_other:
  "name \<notin> path_stem ` set files \<Longrightarrow>
   fst (batch_loop w language files (acc, st)) name = acc name"
  by (induction files arbitrary: acc st) (auto simp: Let_def case_prod_beta)

lemma batch_loop_item:
  "name \<in> path_stem ` set files \<Longrightarrow>
   \<exists>st0. fst (batch_loop w language files (acc, st)) name
         = Some (fst (process_pipeline w st0 name language))"
proof (induction files arbitrary: acc st)
  case Nil
  then show ?case by simp
next
  case (Cons f files)
  let ?r = "process_pipeline w st (path_stem f) language"
  have step: "batch_loop w language (f # files) (acc, st)
      = batch_loop w language files (acc(path_stem f \<mapsto> fst ?r), snd ?r)"
    by (simp add: Let_def case_prod_beta)
  show ?case
  proof (cases "name \<in> path_stem ` set files")
    case True
    from Cons.IH[OF True] show ?thesis unfolding step by blast
  next
    case False
    with Cons.prems have n: "name = path_stem f" by auto
    from batch_loop_other[OF False]
    have "fst (batch_loop w language (f # files) (acc, st)) name = Some (fst ?r)"
      unfolding step by (simp add: n)
    then show ?thesis unfolding n by blast
  qed
qed


lemma process_pipeline_summary_error:
  assumes "transcribe_audio w st (ascii ''audio/'' @ file_name @ ascii ''.mp3'') language None
           = (Inr t, st1)"
    and "process_sentences w st1 t language None = (Inr ss, st2)"
    and "extract_key_phrases (unicode_lower w) (unicode_isalnum w) t language = Inr kp"
    and "summarize_text w st2 (join [0x20] ss) language None None = (Inl e, st3)"
  shows "fst (process_pipeline w st file_name language)
         = [''transcription'' \<mapsto> VStr t,
            ''language'' \<mapsto> VStr language,
            ''word_count'' \<mapsto> VInt (int (length (split_ws t))),
            ''sentences'' \<mapsto> VList ss,
            ''sentence_count'' \<mapsto> VInt (int (length ss)),
            ''key_phrases'' \<mapsto> VList kp,
            ''status'' \<mapsto> VStr (ascii ''error''),
            ''error'' \<mapsto> VStr (ascii ''Pipeline failed: '' @ str_of_error e)]"
  by (simp add: process_pipeline_def pipeline_failed_def Let_def assms)

lemma transcribe_audio_keeps_summarizer:
  "loaded_summarizer (snd (transcribe_audio w st audio_file language output_file))
   = loaded_summarizer st"
  by (simp add: transcribe_audio_def load_whisper_model_def write_file_def log_event_def
        Let_def split: option.splits sum.splits)

lemma process_sentences_keeps_summarizer:
  "loaded_summarizer (snd (process_sentences w st t language output_file))
   = loaded_summarizer st"
  by (simp add: process_sentences_def write_file_def log_event_def Let_def
        split: option.splits)

lemma load_summarizer_offline_any:
  assumes "loaded_summarizer st = None"
  shows "\<exists>st1. load_summarizer offline_world st language
               = (Inl (ExternalError (ascii ''model not available'')), st1)"
  using assms by (simp add: load_summarizer_def offline_world_def Let_def)

lemma demo_transcription:
  "fst (transcribe_audio offline_world (new_processor (ascii ''medium''))
          (ascii ''audio/'' @ ascii ''a'' @ ascii ''.mp3'') lang_en None)
   = Inr demo_text"
  by (simp add: transcribe_audio_def load_whisper_model_def write_file_def log_event_def
        offline_world_def demo_world_def new_processor_def clean_text_def en_kept_def
        en_ending_def re_word_def ascii_letter_def ascii_digit_def path_stem_def path_name_def
        demo_text_def text_eval)

lemma demo_sentences_tokens:
  "length (split_ws (join [0x20] (regex_sentence_split demo_text lang_en))) = 24"
  by (simp add: demo_text_def segment_eval)

lemma offline_stages:
  "\<exists>st1 st2 kp st3.
     transcribe_audio offline_world (new_processor (ascii ''medium''))
       (ascii ''audio/'' @ ascii ''a'' @ ascii ''.mp3'') lang_en None = (Inr demo_text, st1)
   \<and> process_sentences offline_world st1 demo_text lang_en None
       = (Inr (regex_sentence_split demo_text lang_en), st2)
   \<and> extract_key_phrases (unicode_lower offline_world) (unicode_isalnum offline_world)
         demo_text lang_en = Inr kp
   \<and> summarize_text offline_world st2 (join [0x20] (regex_sentence_split demo_text lang_en))
         lang_en None None
       = (Inl (ExternalError (ascii ''model not available'')), st3)"
proof -
  let ?w = offline_world and ?st = "new_processor (ascii ''medium'')"
  let ?p = "ascii ''audio/'' @ ascii ''a'' @ ascii ''.mp3''"
  define st1 where "st1 = snd (transcribe_audio ?w ?st ?p lang_en None)"
  have a: "transcribe_audio ?w ?st ?p lang_en None = (Inr demo_text, st1)"
    using demo_transcription by (simp add: st1_def prod_eq_iff)
  have s1: "loaded_summarizer st1 = None"
    by (simp add: st1_def transcribe_audio_keeps_summarizer new_processor_def)
  define st2 where "st2 = snd (process_sentences ?w st1 demo_text lang_en None)"
  have b: "process_sentences ?w st1 demo_text lang_en None
           = (Inr (regex_sentence_split demo_text lang_en), st2)"
    by (simp add: st2_def process_sentences_def write_file_def offline_world_def
          demo_world_def Let_def)
  have s2: "loaded_summarizer st2 = None"
    by (simp add: st2_def process_sentences_keeps_summarizer s1)
  have "lang_en = lang_ur \<or> lang_en = lang_en" by simp
  from extract_key_phrases_ok[OF this] obtain kp
    where c: "extract_key_phrases (unicode_lower ?w) (unicode_isalnum ?w) demo_text lang_en
              = Inr kp" by blast
  from load_summarizer_offline_any[OF s2] obtain st3
    where l: "load_summarizer ?w st2 lang_en
              = (Inl (ExternalError (ascii ''model not available'')), st3)" by blast
  have "20 \<le> length (split_ws (join [0x20] (regex_sentence_split demo_text lang_en)))"
    by (simp add: demo_sentences_tokens)
  from summarize_text_load_error[OF this l]
  have d: "summarize_text ?w st2 (join [0x20] (regex_sentence_split demo_text lang_en)) lang_en
             None None = (Inl (ExternalError (ascii ''model not available'')), st3)" .
  from a b c d show ?thesis by blast
qed

lemma offline_run:
  "\<exists>kp. fst (process_pipeline offline_world (new_processor (ascii ''medium'')) (ascii ''a'')
               lang_en)
         = [''transcription'' \<mapsto> VStr demo_text,
            ''language'' \<mapsto> VStr lang_en,
            ''word_count'' \<mapsto> VInt (int (length (split_ws demo_text))),
            ''sentences'' \<mapsto> VList (regex_sentence_split demo_text lang_en),
            ''sentence_count'' \<mapsto> VInt (int (length (regex_sentence_split demo_text lang_en))),
            ''key_phrases'' \<mapsto> VList kp,
            ''status'' \<mapsto> VStr (ascii ''error''),
            ''error'' \<mapsto> VStr (ascii ''Pipeline failed: '' @ ascii ''model not available'')]"
proof -
  from offline_stages obtain st1 st2 kp st3 where
    a: "transcribe_audio offline_world (new_processor (ascii ''medium''))
          (ascii ''audio/'' @ ascii ''a'' @ ascii ''.mp3'') lang_en None = (Inr demo_text, st1)"
    and b: "process_sentences offline_world st1 demo_text lang_en None
          = (Inr (regex_sentence_split demo_text lang_en), st2)"
    and c: "extract_key_phrases (unicode_lower offline_world) (unicode_isalnum offline_world)
          demo_text lang_en = Inr kp"
    and d: "summarize_text offline_world st2
          (join [0x20] (regex_sentence_split demo_text lang_en)) lang_en None None
          = (Inl (ExternalError (ascii ''model not available'')), st3)"
    by blast
  from process_pipeline_summary_error[OF a b c d] show ?thesis by auto
qed

lemma demo_items:
  "item_capabilities demo_world (ascii ''a'') lang_en"
  "item_capabilities demo_world (ascii ''c'') lang_en"
  "\<not> os_path_exists demo_world (ascii ''audio/'' @ ascii ''b'' @ ascii ''.mp3'')"
  by (simp_all add: item_capabilities_def demo_world_def ascii_def)

lemma demo_stems:
  "path_stem ` set (path_glob_mp3 demo_world (ascii ''incoming''))
   = {ascii ''a'', ascii ''b'', ascii ''c''}"
  by (simp add: demo_world_def path_stem_def path_name_def ascii_def Let_def)

text \<open>
  Claim C2, as the specification states it: the record of a failed run holds the error
  status and the error message and no field of a stage completed before the failure. In
  a world where Whisper works and no summarization model can be loaded, the run fails at
  the summary and its record still holds the transcription.
\<close>

theorem process_pipeline_failure_counterexample:
  "fst (process_pipeline offline_world (new_processor (ascii ''medium'')) (ascii ''a'') lang_en)
     ''status'' = Some (VStr (ascii ''error''))
   \<and> fst (process_pipeline offline_world (new_processor (ascii ''medium'')) (ascii ''a'')
            lang_en) ''transcription'' = Some (VStr demo_text)"
  using offline_run by auto

text \<open>
  Claim C2, amended: a run that fails at any stage returns a record with the status
  \<open>error\<close>, an error message that starts with \<open>Pipeline failed: \<close> and carries the text
  of what was raised, no summary and no summary file, and exactly the fields of the stages
  completed before the failure: nothing more when the transcription fails;
  \<open>transcription\<close>, \<open>language\<close> and \<open>word_count\<close> when the sentence stage fails; also
  \<open>sentences\<close> and \<open>sentence_count\<close> when the key phrase stage fails; also \<open>key_phrases\<close>
  when the summarization or the writing of the summary file fails. A run in which no
  stage fails returns all the fields and the status \<open>success\<close>.
\<close>

theorem process_pipeline_failure_record:
  "(case transcribe_audio w st (ascii ''audio/'' @ file_name @ ascii ''.mp3'') language None of
      (Inl e, st1) \<Rightarrow>
        fst (process_pipeline w st file_name language)
          = [''status'' \<mapsto> VStr (ascii ''error''),
             ''error'' \<mapsto> VStr (ascii ''Pipeline failed: '' @ str_of_error e)]
    | (Inr transcription, st1) \<Rightarrow>
        (case process_sentences w st1 transcription language None of
           (Inl e, st2) \<Rightarrow>
             fst (process_pipeline w st file_name language)
               = [''transcription'' \<mapsto> VStr transcription,
                  ''language'' \<mapsto> VStr language,
                  ''word_count'' \<mapsto> VInt (int (length (split_ws transcription))),
                  ''status'' \<mapsto> VStr (ascii ''error''),
                  ''error'' \<mapsto> VStr (ascii ''Pipeline failed: '' @ str_of_error e)]
         | (Inr sentences, st2) \<Rightarrow>
             (case extract_key_phrases (unicode_lower w) (unicode_isalnum w)
                     transcription language of
                Inl e \<Rightarrow>
                  fst (process_pipeline w st file_name language)
                    = [''transcription'' \<mapsto> VStr transcription,
                       ''language'' \<mapsto> VStr language,
                       ''word_count'' \<mapsto> VInt (int (length (split_ws transcription))),
                       ''sentences'' \<mapsto> VList sentences,
                       ''sentence_count'' \<mapsto> VInt (int (length sentences)),
                       ''status'' \<mapsto> VStr (ascii ''error''),
                       ''error'' \<mapsto> VStr (ascii ''Pipeline failed: '' @ str_of_error e)]
              | Inr key_phrases \<Rightarrow>
                  (case summarize_text w st2 (join [0x20] sentences) language None None of
                     (Inl e, st3) \<Rightarrow>
                       fst (process_pipeline w st file_name language)
                         = [''transcription'' \<mapsto> VStr transcription,
                            ''language'' \<mapsto> VStr language,
                            ''word_count'' \<mapsto> VInt (int (length (split_ws transcription))),
                            ''sentences'' \<mapsto> VList sentences,
                            ''sentence_count'' \<mapsto> VInt (int (length sentences)),
                            ''key_phrases'' \<mapsto> VList key_phrases,
                            ''status'' \<mapsto> VStr (ascii ''error''),
                            ''error'' \<mapsto> VStr (ascii ''Pipeline failed: '' @ str_of_error e)]
                   | (Inr summary, st3) \<Rightarrow>
                       (case open_write w (ascii ''analysis/'' @ file_name @ ascii ''_''
                                           @ language @ ascii ''_summary.txt'') of
                          Some e \<Rightarrow>
                            fst (process_pipeline w st file_name language)
                              = [''transcription'' \<mapsto> VStr transcription,
                                 ''language'' \<mapsto> VStr language,
                                 ''word_count'' \<mapsto>
                                   VInt (int (length (split_ws transcription))),
                                 ''sentences'' \<mapsto> VList sentences,
                                 ''sentence_count'' \<mapsto> VInt (int (length sentences)),
                                 ''key_phrases'' \<mapsto> VList key_phrases,
                                 ''status'' \<mapsto> VStr (ascii ''error''),
                                 ''error'' \<mapsto>
                                   VStr (ascii ''Pipeline failed: '' @ str_of_error e)]
                        | None \<Rightarrow>
                            fst (process_pipeline w st file_name language)
                              = [''transcription'' \<mapsto> VStr transcription,
                                 ''language'' \<mapsto> VStr language,
                                 ''word_count'' \<mapsto>
                                   VInt (int (length (split_ws transcription))),
                                 ''sentences'' \<mapsto> VList sentences,
                                 ''sentence_count'' \<mapsto> VInt (int (length sentences)),
                                 ''key_phrases'' \<mapsto> VList key_phrases,
                                 ''summary'' \<mapsto> VStr summary,
                                 ''summary_file'' \<mapsto>
                                   VStr (ascii ''analysis/'' @ file_name @ ascii ''_''
                                         @ language @ ascii ''_summary.txt''),
                                 ''status'' \<mapsto> VStr (ascii ''success'')])))))"
proof (cases "transcribe_audio w st (ascii ''audio/'' @ file_name @ ascii ''.mp3'') language None")
  case a: (Pair x st1)
  show ?thesis
  proof (cases x)
    case (Inl e)
    with a show ?thesis by (simp add: process_pipeline_def pipeline_failed_def Let_def)
  next
    case t: (Inr t)
    show ?thesis
    proof (cases "process_sentences w st1 t language None")
      case b: (Pair y st2)
      show ?thesis
      proof (cases y)
        case (Inl e)
        with a t b show ?thesis by (simp add: process_pipeline_def pipeline_failed_def Let_def)
      next
        case ss: (Inr ss)
        show ?thesis
        proof (cases "extract_key_phrases (unicode_lower w) (unicode_isalnum w) t language")
          case (Inl e)
          with a t b ss show ?thesis
            by (simp add: process_pipeline_def pipeline_failed_def Let_def)
        next
          case kp: (Inr kp)
          show ?thesis
          proof (cases "summarize_text w st2 (join [0x20] ss) language None None")
            case d: (Pair z st3)
            show ?thesis
            proof (cases z)
              case (Inl e)
              with a t b ss kp d show ?thesis
                by (simp add: process_pipeline_def pipeline_failed_def Let_def)
            next
              case sm: (Inr summary)
              show ?thesis
              proof (cases "open_write w (ascii ''analysis/'' @ file_name @ ascii ''_''
                                           @ language @ ascii ''_summary.txt'')")
                case None
                with a t b ss kp d sm show ?thesis
                  by (simp add: process_pipeline_def pipeline_failed_def write_file_def Let_def)
              next
                case (Some e)
                with a t b ss kp d sm show ?thesis
                  by (simp add: process_pipeline_def pipeline_failed_def write_file_def Let_def)
              qed
            qed
          qed
        qed
      qed
    qed
  qed
qed

theorem process_pipeline_failure_witness:
  "\<exists>kp. fst (process_pipeline offline_world (new_processor (ascii ''medium'')) (ascii ''a'')
               lang_en)
         = [''transcription'' \<mapsto> VStr demo_text,
            ''language'' \<mapsto> VStr lang_en,
            ''word_count'' \<mapsto> VInt (int (length (split_ws demo_text))),
            ''sentences'' \<mapsto> VList (regex_sentence_split demo_text lang_en),
            ''sentence_count'' \<mapsto> VInt (int (length (regex_sentence_split demo_text lang_en))),
            ''key_phrases'' \<mapsto> VList kp,
            ''status'' \<mapsto> VStr (ascii ''error''),
            ''error'' \<mapsto> VStr (ascii ''Pipeline failed: '' @ ascii ''model not available'')]"
proof -
  from offline_stages obtain st1 st2 kp st3 where
    a: "transcribe_audio offline_world (new_processor (ascii ''medium''))
          (ascii ''audio/'' @ ascii ''a'' @ ascii ''.mp3'') lang_en None = (Inr demo_text, st1)"
    and b: "process_sentences offline_world st1 demo_text lang_en None
          = (Inr (regex_sentence_split demo_text lang_en), st2)"
    and c: "extract_key_phrases (unicode_lower offline_world) (unicode_isalnum offline_world)
          demo_text lang_en = Inr kp"
    and d: "summarize_text offline_world st2
          (join [0x20] (regex_sentence_split demo_text lang_en)) lang_en None None
          = (Inl (ExternalError (ascii ''model not available'')), st3)"
    by blast
  from process_pipeline_failure_record
         [of offline_world "new_processor (ascii ''medium'')" "ascii ''a''" lang_en]
  have r: "fst (process_pipeline offline_world (new_processor (ascii ''medium'')) (ascii ''a'')
               lang_en)
         = [''transcription'' \<mapsto> VStr demo_text,
            ''language'' \<mapsto> VStr lang_en,
            ''word_count'' \<mapsto> VInt (int (length (split_ws demo_text))),
            ''sentences'' \<mapsto> VList (regex_sentence_split demo_text lang_en),
            ''sentence_count'' \<mapsto> VInt (int (length (regex_sentence_split demo_text lang_en))),
            ''key_phrases'' \<mapsto> VList kp,
            ''status'' \<mapsto> VStr (ascii ''error''),
            ''error'' \<mapsto> VStr (ascii ''Pipeline failed: '' @ ascii ''model not available'')]"
    by (simp add: a b c d)
  show ?thesis by (rule exI[of _ kp]) (rule r)
qed

text \<open>
  Claim C9: the result of a batch has one entry for every file found, and each entry is
  the record of that item's own pipeline run, with the status \<open>success\<close> or \<open>error\<close>,
  whatever happens to the other items: an item whose audio file is missing gets the
  status \<open>error\<close> with the message of the missing file, and an item of a supported
  language for which the world provides what its own run needs gets the status
  \<open>success\<close>, also when other items fail. The witness is a batch of three items of which
  the second has no audio file.
\<close>

theorem process_batch_isolates_failures:
  "dom (fst (process_batch w st audio_dir language)) = path_stem ` set (path_glob_mp3 w audio_dir)
   \<and> (\<forall>name \<in> path_stem ` set (path_glob_mp3 w audio_dir).
         \<exists>r st0. fst (process_batch w st audio_dir language) name = Some r
           \<and> r = fst (process_pipeline w st0 name language)
           \<and> (r ''status'' = Some (VStr (ascii ''success''))
              \<or> r ''status'' = Some (VStr (ascii ''error'')))
           \<and> (\<not> os_path_exists w (ascii ''audio/'' @ name @ ascii ''.mp3'') \<longrightarrow>
                r = [''status'' \<mapsto> VStr (ascii ''error''),
                     ''error'' \<mapsto> VStr (ascii ''Pipeline failed: ''
                                     @ ascii ''Audio file not found: ''
                                     @ ascii ''audio/'' @ name @ ascii ''.mp3'')])
           \<and> (item_capabilities w name language \<and> (language = lang_ur \<or> language = lang_en)
                \<longrightarrow> r ''status'' = Some (VStr (ascii ''success''))))"
proof (intro conjI ballI)
  show "dom (fst (process_batch w st audio_dir language))
        = path_stem ` set (path_glob_mp3 w audio_dir)"
    by (simp add: process_batch_def batch_loop_dom)
next
  fix name assume "name \<in> path_stem ` set (path_glob_mp3 w audio_dir)"
  from batch_loop_item[OF this] obtain st0
    where r: "fst (process_batch w st audio_dir language) name
              = Some (fst (process_pipeline w st0 name language))"
    unfolding process_batch_def by blast
  let ?r = "fst (process_pipeline w st0 name language)"
  have 0: "?r = fst (process_pipeline w st0 name language)" by (rule refl)
  have 1: "?r ''status'' = Some (VStr (ascii ''success''))
           \<or> ?r ''status'' = Some (VStr (ascii ''error''))"
    by (rule process_pipeline_status)
  have 2: "\<not> os_path_exists w (ascii ''audio/'' @ name @ ascii ''.mp3'') \<longrightarrow>
            ?r = [''status'' \<mapsto> VStr (ascii ''error''),
                  ''error'' \<mapsto> VStr (ascii ''Pipeline failed: ''
                                  @ ascii ''Audio file not found: ''
                                  @ ascii ''audio/'' @ name @ ascii ''.mp3'')]"
    using process_pipeline_missing_file[of w name st0 language] by blast
  have 3: "item_capabilities w name language \<and> (language = lang_ur \<or> language = lang_en)
            \<longrightarrow> ?r ''status'' = Some (VStr (ascii ''success''))"
    using process_pipeline_ok[of w name language st0] by blast
  show "\<exists>r st0. fst (process_batch w st audio_dir language) name = Some r
           \<and> r = fst (process_pipeline w st0 name language)
           \<and> (r ''status'' = Some (VStr (ascii ''success''))
              \<or> r ''status'' = Some (VStr (ascii ''error'')))
           \<and> (\<not> os_path_exists w (ascii ''audio/'' @ name @ ascii ''.mp3'') \<longrightarrow>
                r = [''status'' \<mapsto> VStr (ascii ''error''),
                     ''error'' \<mapsto> VStr (ascii ''Pipeline failed: ''
                                     @ ascii ''Audio file not found: ''
                                     @ ascii ''audio/'' @ name @ ascii ''.mp3'')])
           \<and> (item_capabilities w name language \<and> (language = lang_ur \<or> language = lang_en)
                \<longrightarrow> r ''status'' = Some (VStr (ascii ''success'')))"
    by (rule exI[of _ ?r], rule exI[of _ st0])
       (rule conjI[OF r conjI[OF 0 conjI[OF 1 conjI[OF 2 3]]]])
qed

theorem process_batch_isolates_failures_witness:
  "item_capabilities demo_world (ascii ''a'') lang_en
   \<and> item_capabilities demo_world (ascii ''c'') lang_en
   \<and> \<not> os_path_exists demo_world (ascii ''audio/'' @ ascii ''b'' @ ascii ''.mp3'')
   \<and> dom (fst (process_batch demo_world (new_processor (ascii ''medium''))
              (ascii ''incoming'') lang_en))
     = {ascii ''a'', ascii ''b'', ascii ''c''}
   \<and> (\<exists>r. fst (process_batch demo_world (new_processor (ascii ''medium''))
                 (ascii ''incoming'') lang_en) (ascii ''a'') = Some r
          \<and> r ''status'' = Some (VStr (ascii ''success'')))
   \<and> (\<exists>r. fst (process_batch demo_world (new_processor (ascii ''medium''))
                 (ascii ''incoming'') lang_en) (ascii ''b'') = Some r
          \<and> r ''status'' = Some (VStr (ascii ''error'')))
   \<and> (\<exists>r. fst (process_batch demo_world (new_processor (ascii ''medium''))
                 (ascii ''incoming'') lang_en) (ascii ''c'') = Some r
          \<and> r ''status'' = Some (VStr (ascii ''success'')))"
proof -
  note t = process_batch_isolates_failures
    [of demo_world "new_processor (ascii ''medium'')" "ascii ''incoming''" lang_en]
  have d: "dom (fst (process_batch demo_world (new_processor (ascii ''medium''))
              (ascii ''incoming'') lang_en)) = {ascii ''a'', ascii ''b'', ascii ''c''}"
    using t[THEN conjunct1] by (simp only: demo_stems)
  have item: "\<forall>name \<in> {ascii ''a'', ascii ''b'', ascii ''c''}.
         \<exists>r st0. fst (process_batch demo_world (new_processor (ascii ''medium''))
                 (ascii ''incoming'') lang_en) name = Some r
           \<and> r = fst (process_pipeline demo_world st0 name lang_en)
           \<and> (r ''status'' = Some (VStr (ascii ''success''))
              \<or> r ''status'' = Some (VStr (ascii ''error'')))
           \<and> (\<not> os_path_exists demo_world (ascii ''audio/'' @ name @ ascii ''.mp3'') \<longrightarrow>
                r = [''status'' \<mapsto> VStr (ascii ''error''),
                     ''error'' \<mapsto> VStr (ascii ''Pipeline failed: ''
                                     @ ascii ''Audio file not found: ''
                                     @ ascii ''audio/'' @ name @ ascii ''.mp3'')])
           \<and> (item_capabilities demo_world name lang_en
                \<and> (lang_en = lang_ur \<or> lang_en = lang_en)
                \<longrightarrow> r ''status'' = Some (VStr (ascii ''success'')))"
    using t[THEN conjunct2] by (simp only: demo_stems)
  have a: "\<exists>r. fst (process_batch demo_world (new_processor (ascii ''medium''))
                 (ascii ''incoming'') lang_en) (ascii ''a'') = Some r
          \<and> r ''status'' = Some (VStr (ascii ''success''))"
    using item[rule_format, of "ascii ''a''"] demo_items(1) by auto
  have b: "\<exists>r. fst (process_batch demo_world (new_processor (ascii ''medium''))
                 (ascii ''incoming'') lang_en) (ascii ''b'') = Some r
          \<and> r ''status'' = Some (VStr (ascii ''error''))"
    using item[rule_format, of "ascii ''b''"] demo_items(3) by auto
  have c: "\<exists>r. fst (process_batch demo_world (new_processor (ascii ''medium''))
                 (ascii ''incoming'') lang_en) (ascii ''c'') = Some r
          \<and> r ''status'' = Some (VStr (ascii ''success''))"
    using item[rule_format, of "ascii ''c''"] demo_items(2) by auto
  from demo_items d a b c show ?thesis by blast
qed

end
